theory Spec2Isabelle
  imports Main "HOL-Library.Word" "HOL-Library.Multiset" "HOL-Library.Char_ord" "HOL-Library.List_Lexorder"
begin

section \<open>Local disk space allocation (package runner, disk tracking file)\<close>

text \<open>
  The tracker is the package-level variable \<open>diskTrack\<close>; every operation locks it for
  its whole body, so each operation is one atomic step on the record below.  The
  operating system's \<open>syscall.Statfs\<close> is the environment: a function from the device
  path to the block counts, \<open>None\<close> when the call fails.
\<close>

type_synonym uint64 = "64 word"

datatype disk_error =
    StatfsFailed
  | InsufficientSpace
  | EmptyAllocation
  | UntrackedStorage

record diskTracker =
  Device :: string
  AllocSpace :: uint64
  SoftMinFree :: uint64
  InitErr :: "disk_error option"

text \<open>\<open>Bsize\<close> is an \<open>int64\<close> in Go; \<open>uint64(fs.Bsize)\<close> keeps its 64 bits.\<close>

record Statfs_t =
  Bavail :: uint64
  Bsize :: uint64

type_synonym statfs = "string \<Rightarrow> Statfs_t option"

record DiskAllocated =
  alloc_device :: string
  alloc_size :: uint64

definition fs_avail :: "Statfs_t \<Rightarrow> uint64" where
  "fs_avail fs = Bavail fs * Bsize fs"

subsection \<open>The expression \<open>uint64(float64(x) * 0.85)\<close>\<close>

text \<open>
  IEEE-754 binary64 arithmetic on the non-negative values that occur here, written with
  integers.  \<open>round53 p\<close> rounds \<open>p\<close> to 53 significant bits, ties to even, and
  returns the significand with the number of low bits dropped.  The constant \<open>0.85\<close> is
  the double \<open>7656119366529843 / 2^53\<close>.  The conversion back to \<open>uint64\<close> truncates.
\<close>

function bitlen :: "int \<Rightarrow> nat" where
  "bitlen n = (if n \<le> 0 then 0 else Suc (bitlen (n div 2)))"
  by pat_completeness auto
termination
  by (relation "measure nat") auto

declare bitlen.simps [simp del]

definition round53 :: "int \<Rightarrow> int \<times> nat" where
  "round53 p =
     (let b = bitlen p in
      if b \<le> 53 then (p, 0)
      else
        let k = b - 53; q = p div 2 ^ k; r = p mod 2 ^ k; h = 2 ^ (k - 1)
        in (if h < r \<or> (r = h \<and> odd q) then q + 1 else q, k))"

definition float64_of :: "int \<Rightarrow> int" where
  "float64_of n = (case round53 n of (m, k) \<Rightarrow> m * 2 ^ k)"

definition times_085 :: "uint64 \<Rightarrow> uint64" where
  "times_085 x =
     (case round53 (float64_of (uint x) * 7656119366529843) of
        (m, k) \<Rightarrow> word_of_int ((m * 2 ^ k) div 2 ^ 53))"

subsection \<open>SetDiskLimits, AllocDisk, Release\<close>

definition SetDiskLimits ::
  "statfs \<Rightarrow> string \<Rightarrow> uint64 \<Rightarrow> diskTracker \<Rightarrow> (disk_error + uint64) \<times> diskTracker" where
  "SetDiskLimits statfs device minFree diskTrack =
     (case statfs device of
        None \<Rightarrow> (Inl StatfsFailed, diskTrack)
      | Some fs \<Rightarrow>
          let softMinFree = times_085 (fs_avail fs);
              softMinFree = (if minFree \<noteq> 0 \<and> minFree < softMinFree then minFree else softMinFree);
              t1 = (if device \<noteq> Device diskTrack then diskTrack\<lparr>AllocSpace := 0\<rparr> else diskTrack);
              t2 = t1\<lparr>SoftMinFree := softMinFree, Device := device, InitErr := None\<rparr>
          in (Inr (SoftMinFree t2), t2))"

definition initDiskResource :: "statfs \<Rightarrow> string \<Rightarrow> diskTracker \<Rightarrow> disk_error option \<times> diskTracker" where
  "initDiskResource statfs device diskTrack =
     (case SetDiskLimits statfs device 0 diskTrack of
        (Inl e, t) \<Rightarrow> (Some e, t\<lparr>InitErr := Some e\<rparr>)
      | (Inr _, t) \<Rightarrow> (None, t\<lparr>InitErr := None\<rparr>))"

definition AllocDisk ::
  "statfs \<Rightarrow> uint64 \<Rightarrow> diskTracker \<Rightarrow> (disk_error + DiskAllocated) \<times> diskTracker" where
  "AllocDisk statfs maxSpace diskTrack =
     (case statfs (Device diskTrack) of
        None \<Rightarrow> (Inl StatfsFailed, diskTrack)
      | Some fs \<Rightarrow>
          if SoftMinFree diskTrack < fs_avail fs - (AllocSpace diskTrack + maxSpace)
          then (Inl InsufficientSpace, diskTrack)
          else
            (Inr \<lparr>alloc_device = Device diskTrack, alloc_size = maxSpace\<rparr>,
             diskTrack\<lparr>InitErr := None, AllocSpace := AllocSpace diskTrack + maxSpace\<rparr>))"

text \<open>The receiver of \<open>Release\<close> is a pointer; \<open>None\<close> is the nil pointer.\<close>

definition Release :: "DiskAllocated option \<Rightarrow> diskTracker \<Rightarrow> disk_error option \<times> diskTracker" where
  "Release alloc diskTrack =
     (case alloc of
        None \<Rightarrow> (Some EmptyAllocation, diskTrack)
      | Some a \<Rightarrow>
          (case InitErr diskTrack of
             Some e \<Rightarrow> (Some e, diskTrack)
           | None \<Rightarrow>
               if alloc_device a \<noteq> Device diskTrack then (Some UntrackedStorage, diskTrack)
               else (None, diskTrack\<lparr>AllocSpace := AllocSpace diskTrack - alloc_size a\<rparr>)))"

section \<open>Resource descriptions and the fit test (package runner, request file)\<close>

text \<open>
  \<open>humanize.ParseBytes\<close> belongs to a library outside the repository.  It is a
  parameter here, with Go's result pair: the parsed number of bytes, and whether the
  error result is non-nil.  Go's \<open>uint\<close> is taken at 64 bits.
\<close>

type_synonym uint = "64 word"

type_synonym ParseBytes = "string \<Rightarrow> uint64 \<times> bool"

record Resource =
  Cpus :: uint
  Gpus :: uint
  Hdd :: string
  Ram :: string
  GpuMem :: string

datatype fit_error =
    LeftRamUnparsed
  | RightRamUnparsed
  | LeftHddUnparsed
  | RightHddUnparsed
  | LeftGpuMemUnparsed
  | RightGpuMemUnparsed

text \<open>\<open>Fit\<close> as the request file has it: the receiver \<open>l\<close> is the need, \<open>r\<close> the offer.\<close>

definition Fit :: "ParseBytes \<Rightarrow> Resource \<Rightarrow> Resource \<Rightarrow> bool \<times> fit_error option" where
  "Fit parseBytes l r =
     (case parseBytes (Ram l) of (lRam, lRamErr) \<Rightarrow>
      if lRamErr then (False, Some LeftRamUnparsed) else
      case parseBytes (Ram r) of (rRam, rRamErr) \<Rightarrow>
      if rRamErr then (False, Some RightRamUnparsed) else
      case parseBytes (Hdd l) of (lHdd, lHddErr) \<Rightarrow>
      if lHddErr then (False, Some LeftHddUnparsed) else
      case parseBytes (Hdd r) of (rHdd, rHddErr) \<Rightarrow>
      if rHddErr then (False, Some RightHddUnparsed) else
      case parseBytes (GpuMem l) of (lGpuMem, lGpuMemErr) \<Rightarrow>
      if 0 \<noteq> length (GpuMem l) \<and> lGpuMemErr then (False, Some LeftGpuMemUnparsed) else
      case parseBytes (GpuMem r) of (rGpuMem, rGpuMemErr) \<Rightarrow>
      if 0 \<noteq> length (GpuMem r) \<and> rGpuMemErr then (False, Some RightGpuMemUnparsed) else
      (Cpus l \<le> Cpus r \<and> Gpus l \<le> Gpus r \<and> lHdd \<le> rHdd \<and> lRam \<le> rRam \<and> lGpuMem \<le> rGpuMem,
       None))"

text \<open>
  The second copy of the request file (among the unnamed sources) has the earlier form
  of \<open>Fit\<close>, which drops every parse error and returns the comparison alone.
\<close>

definition Fit_unchecked :: "ParseBytes \<Rightarrow> Resource \<Rightarrow> Resource \<Rightarrow> bool" where
  "Fit_unchecked parseBytes l r =
     (let lRam = fst (parseBytes (Ram l)); rRam = fst (parseBytes (Ram r));
          lHdd = fst (parseBytes (Hdd l)); rHdd = fst (parseBytes (Hdd r));
          lGpuMem = fst (parseBytes (GpuMem l)); rGpuMem = fst (parseBytes (GpuMem r))
      in Cpus l \<le> Cpus r \<and> Gpus l \<le> Gpus r \<and> lHdd \<le> rHdd \<and> lRam \<le> rRam \<and> lGpuMem \<le> rGpuMem)"

section \<open>Queues, subscriptions and the back-off cache (command runner, queue file)\<close>

record Subscription =
  name :: string
  rsc :: "Resource option"
  cnt :: uint

text \<open>
  \<open>subs.subs\<close> is a Go map from names to subscriptions.  Ranging over a Go map visits
  its keys in an order the language leaves open, so every loop over a map takes the order
  of the visit as a list.  The values of \<open>expected\<close> are never read: it is given by its
  keys, in the order the first loop visits them.
\<close>

type_synonym subs_map = "string \<rightharpoonup> Subscription"

fun align_add :: "string list \<Rightarrow> subs_map \<Rightarrow> string list \<Rightarrow> subs_map \<times> string list" where
  "align_add [] subs added = (subs, added)"
| "align_add (sub # rest) subs added =
     (if subs sub = None
      then align_add rest (subs(sub \<mapsto> \<lparr>name = sub, rsc = None, cnt = 0\<rparr>)) (added @ [sub])
      else align_add rest subs added)"

text \<open>
  The second loop ranges over \<open>subs.subs\<close> itself while deleting from it: a key that is no
  longer in the map is not visited.
\<close>

fun align_remove :: "string list \<Rightarrow> string list \<Rightarrow> subs_map \<Rightarrow> string list \<Rightarrow> subs_map \<times> string list" where
  "align_remove expected [] subs removed = (subs, removed)"
| "align_remove expected (sub # rest) subs removed =
     (if subs sub \<noteq> None \<and> sub \<notin> set expected
      then align_remove expected rest (subs(sub := None)) (removed @ [sub])
      else align_remove expected rest subs removed)"

definition align :: "string list \<Rightarrow> string list \<Rightarrow> subs_map \<Rightarrow> subs_map \<times> string list \<times> string list" where
  "align expected visit subs =
     (case align_add expected subs [] of (subs1, added) \<Rightarrow>
      case align_remove expected visit subs1 [] of (subs2, removed) \<Rightarrow>
      (subs2, added, removed))"

definition setResources :: "string \<Rightarrow> Resource option \<Rightarrow> subs_map \<Rightarrow> bool \<times> subs_map" where
  "setResources nm r subs =
     (case r of
        None \<Rightarrow> (False, subs)
      | Some v \<Rightarrow>
          (case subs nm of
             None \<Rightarrow> (False, subs)
           | Some q \<Rightarrow> (True, subs(nm \<mapsto> q\<lparr>rsc := Some v\<rparr>))))"

subsection \<open>The back-off cache\<close>

text \<open>
  \<open>time.Duration\<close> counts nanoseconds.  The cache \<open>backoffs\<close> maps a key to the lifetime
  it was last set with; an absent key is one that was never set or has expired.
\<close>

type_synonym Duration = int

definition Second :: Duration where
  "Second = 1000000000"

definition Minute :: Duration where
  "Minute = 60 * Second"

type_synonym backoff_cache = "string \<rightharpoonup> Duration"

record subRequest =
  rq_project :: string
  rq_subscription :: string
  rq_creds :: string

definition fqName :: "string \<Rightarrow> string \<Rightarrow> string" where
  "fqName proj nm = proj @ '':'' @ nm"

subsection \<open>The message handler of doWork\<close>

text \<open>
  \<open>newProcessor\<close> and \<open>Process\<close> are outside these sources; their results are inputs.
  \<open>newProcessor\<close> gives an error text or a processor, of which the handler reads the
  resources the experiment asks for and the triple \<open>Process\<close> returns: back-off, ack and
  error.  While \<open>Process\<close> runs, other goroutines and the cache's expiry can change the
  back-off cache; \<open>during\<close> is that change (the identity when nothing interferes).
\<close>

datatype receipt = Ack | Nack

record processor =
  experiment_resource :: Resource
  Process :: "Duration \<times> bool \<times> string option"

record handler_world =
  backoffs :: backoff_cache
  registry :: subs_map
  receipts :: "receipt list"
  cancelled :: bool

definition handler ::
  "subRequest \<Rightarrow> string + processor \<Rightarrow> (backoff_cache \<Rightarrow> backoff_cache) \<Rightarrow> handler_world \<Rightarrow> handler_world" where
  "handler request newProcessor during w =
     (let key = fqName (rq_project request) (rq_subscription request) in
      if backoffs w key \<noteq> None
      then w\<lparr>receipts := receipts w @ [Nack], cancelled := True\<rparr>
      else
        case newProcessor of
          Inl err \<Rightarrow> w\<lparr>receipts := receipts w @ [Nack], cancelled := True\<rparr>
        | Inr proc \<Rightarrow>
            let w1 = w\<lparr>registry := snd (setResources (rq_subscription request)
                                      (Some (experiment_resource proc)) (registry w))\<rparr>;
                w2 = w1\<lparr>backoffs := during (backoffs w1)\<rparr>
            in
              (case Process proc of
                (backoff, ack, Some err) \<Rightarrow>
                  w2\<lparr>receipts := receipts w2 @ [if ack then Ack else Nack],
                     cancelled := True,
                     backoffs := (backoffs w2)(key \<mapsto> backoff)\<rparr>
              | (backoff, ack, None) \<Rightarrow>
                  let w3 = w2\<lparr>receipts := receipts w2 @ [Ack]\<rparr>
                  in if backoffs w3 key \<noteq> None
                     then w3\<lparr>backoffs := (backoffs w3)(key \<mapsto> Second)\<rparr>
                     else w3))"

subsection \<open>The producer: rank, shuffle, check\<close>

record Queuer =
  qr_project :: string
  qr_cred :: string
  qr_subs :: subs_map

text \<open>
  \<open>rank\<close> copies the subscriptions out of the map and sorts them by \<open>cnt\<close>.  \<open>visit\<close> is
  the order in which the map is ranged over.
\<close>

definition rank :: "string list \<Rightarrow> Queuer \<Rightarrow> Subscription list" where
  "rank visit qr = sort_key cnt (List.map_filter (qr_subs qr) visit)"

text \<open>
  The Fisher-Yates shuffle.  \<open>draws\<close> are the numbers \<open>rand.Intn\<close> returns, one for each
  round; \<open>rand.Intn (n - i)\<close> lies below \<open>n - i\<close>.  A round with no draw left takes 0.
\<close>

function shuffle_from :: "nat list \<Rightarrow> nat \<Rightarrow> 'a list \<Rightarrow> 'a list" where
  "shuffle_from draws i slc =
     (if i < length slc
      then
        let r = i + (case draws of [] \<Rightarrow> 0 | d # _ \<Rightarrow> d mod (length slc - i))
        in shuffle_from (tl draws) (Suc i) (slc[r := slc ! i, i := slc ! r])
      else slc)"
  by pat_completeness auto
termination
  by (relation "measure (\<lambda>(draws, i, slc). length slc - i)") auto

declare shuffle_from.simps [simp del]

definition shuffle :: "nat list \<Rightarrow> 'a list \<Rightarrow> 'a list" where
  "shuffle draws slc = shuffle_from draws 0 slc"

text \<open>
  \<open>check\<close> sends on the unbuffered channel \<open>rQ\<close> twice.  Whether the consumer is at its
  receive when the first send is tried, and whether it takes the second send within two
  seconds, are inputs.  The result is the error, if any, and the requests sent.
\<close>

datatype check_error =
    BusyFirstStage
  | SubscriptionNotFound
  | FitFailed fit_error
  | NotAccomodated
  | BusySecondStage

record rendezvous =
  first_taken :: bool
  second_taken :: bool

definition check ::
  "ParseBytes \<Rightarrow> Resource \<Rightarrow> rendezvous \<Rightarrow> Queuer \<Rightarrow> string \<Rightarrow> check_error option \<times> subRequest list" where
  "check parseBytes machine rQ qr nm =
     (let probe = \<lparr>rq_project = [], rq_subscription = [], rq_creds = []\<rparr> in
      if \<not> first_taken rQ then (Some BusyFirstStage, [])
      else
        case qr_subs qr nm of
          None \<Rightarrow> (Some SubscriptionNotFound, [probe])
        | Some sub \<Rightarrow>
            (case (case rsc sub of
                     None \<Rightarrow> None
                   | Some need \<Rightarrow>
                       (case Fit parseBytes need machine of
                          (fit, err) \<Rightarrow>
                            if \<not> fit
                            then (case err of Some e \<Rightarrow> Some (FitFailed e) | None \<Rightarrow> Some NotAccomodated)
                            else None)) of
               Some e \<Rightarrow> (Some e, [probe])
             | None \<Rightarrow>
                 if second_taken rQ
                 then (None, [probe, \<lparr>rq_project = qr_project qr, rq_subscription = nm, rq_creds = qr_cred qr\<rparr>])
                 else (Some BusySecondStage, [probe])))"

definition idle_subs :: "string \<Rightarrow> backoff_cache \<Rightarrow> Subscription list \<Rightarrow> Subscription list" where
  "idle_subs proj cache ranked =
     filter (\<lambda>sub. cnt sub = 0 \<and> cache (fqName proj (name sub)) = None) ranked"

text \<open>
  One tick of the producer, up to the point where it is ready again: the new cache, the
  requests sent, and whether \<open>lastReady\<close> was set.  The hourly warning that follows in the
  source reads the clock only and is left out.
\<close>

definition producer_tick ::
  "ParseBytes \<Rightarrow> Resource \<Rightarrow> rendezvous \<Rightarrow> nat list \<Rightarrow> string list \<Rightarrow> Queuer \<Rightarrow> backoff_cache
     \<Rightarrow> backoff_cache \<times> subRequest list \<times> bool" where
  "producer_tick parseBytes machine rQ draws visit qr cache =
     (case shuffle draws (idle_subs (qr_project qr) cache (rank visit qr)) of
        [] \<Rightarrow> (cache, [], False)
      | candidate # _ \<Rightarrow>
          (case check parseBytes machine rQ qr (name candidate) of
             (Some err, sent) \<Rightarrow>
               (cache(fqName (qr_project qr) (name candidate) \<mapsto> Minute), sent, False)
           | (None, sent) \<Rightarrow> (cache, sent, True)))"

section \<open>Requests on the wire (package runner, request file)\<close>

text \<open>
  \<open>UnmarshalRequest\<close> and \<open>Marshal\<close> hand a \<open>Request\<close> to Go's \<open>encoding/json\<close>, which
  walks the declared struct types by reflection.  The model does the same: \<open>ty\<close> describes
  a Go type, with a struct given by its fields in order (the JSON name of the tag, the
  \<open>omitempty\<close> option, the type), \<open>gval\<close> is a Go value, and \<open>json\<close> is a JSON text after
  parsing, its object members in the order of the text.

  Numbers and strings are read and written by \<open>strconv\<close> and \<open>unicode/utf8\<close>, outside
  the repository; the record \<open>strconv\<close> holds them as parameters.  \<open>'n\<close> is a number
  literal and \<open>'f\<close> a \<open>float64\<close>; \<open>FormatFloat\<close> has no result for NaN and the
  infinities; \<open>ToValidUTF8\<close> is the replacement of invalid bytes that the encoder
  applies to every string it writes.
\<close>

datatype json_error = UnmarshalTypeError | UnsupportedValue | NotModelled

record ('n, 'f) strconv =
  ParseUint :: "'n \<Rightarrow> uint64 option"
  FormatUint :: "uint64 \<Rightarrow> 'n"
  ParseInt :: "'n \<Rightarrow> 64 word option"
  FormatInt :: "64 word \<Rightarrow> 'n"
  ParseFloat :: "'n \<Rightarrow> 'f option"
  FormatFloat :: "'f \<Rightarrow> 'n option"
  FloatZero :: 'f
  FloatIsZero :: "'f \<Rightarrow> bool"
  ToValidUTF8 :: "string \<Rightarrow> string"

datatype ty =
    TString | TBool | TUint | TInt64 | TFloat64 | TInterface
  | TSlice ty
  | TMap ty
  | TStruct "(string \<times> bool \<times> ty) list"

text \<open>
  \<open>GNil\<close> is the nil interface, the nil slice and the nil map.  A map value keeps its
  entries in ascending order of the keys, the order in which \<open>Marshal\<close> writes them.  A
  slice is its elements, followed by what the array behind it still holds past its
  length: the decoder writes into that array, so elements left there by an earlier member
  of the message can come back.
\<close>

datatype 'f gval =
    GNil
  | GBool bool
  | GString string
  | GUint uint64
  | GInt64 "64 word"
  | GFloat64 'f
  | GSlice "'f gval list" "'f gval list"
  | GMap "(string \<times> 'f gval) list"
  | GStruct "'f gval list"

datatype 'n json =
    JNull
  | JBool bool
  | JNumber 'n
  | JString string
  | JArray "'n json list"
  | JObject "(string \<times> 'n json) list"

fun zeroValue :: "('n, 'f) strconv \<Rightarrow> ty \<Rightarrow> 'f gval"
  and zeroFields :: "('n, 'f) strconv \<Rightarrow> (string \<times> bool \<times> ty) list \<Rightarrow> 'f gval list" where
  "zeroValue sc TString = GString []"
| "zeroValue sc TBool = GBool False"
| "zeroValue sc TUint = GUint 0"
| "zeroValue sc TInt64 = GInt64 0"
| "zeroValue sc TFloat64 = GFloat64 (FloatZero sc)"
| "zeroValue sc TInterface = GNil"
| "zeroValue sc (TSlice t) = GNil"
| "zeroValue sc (TMap t) = GNil"
| "zeroValue sc (TStruct fs) = GStruct (zeroFields sc fs)"
| "zeroFields sc [] = []"
| "zeroFields sc ((tag, omitempty, t) # fs) = zeroValue sc t # zeroFields sc fs"

text \<open>
  A member of a JSON object selects the field whose name it equals, and failing that
  the first field whose name it equals when letter case is ignored; there the Kelvin sign
  (bytes E2 84 AA) counts as \<open>k\<close> and the long s (bytes C5 BF) as \<open>s\<close>.
\<close>

definition toLower :: "char \<Rightarrow> char" where
  "toLower c = (if CHR ''A'' \<le> c \<and> c \<le> CHR ''Z'' then char_of (of_char c + (32 :: nat)) else c)"

fun foldKey :: "string \<Rightarrow> string" where
  "foldKey [] = []"
| "foldKey (c # rest) =
     (if c = CHR 0xE2 \<and> take 2 rest = [CHR 0x84, CHR 0xAA] then CHR ''k'' # foldKey (drop 2 rest)
      else if c = CHR 0xC5 \<and> take 1 rest = [CHR 0xBF] then CHR ''s'' # foldKey (drop 1 rest)
      else toLower c # foldKey rest)"

fun field_index :: "(string \<Rightarrow> bool) \<Rightarrow> (string \<times> bool \<times> ty) list \<Rightarrow> nat option" where
  "field_index p [] = None"
| "field_index p ((tag, omitempty, t) # fs) =
     (if p tag then Some 0 else map_option Suc (field_index p fs))"

definition find_field :: "(string \<times> bool \<times> ty) list \<Rightarrow> string \<Rightarrow> nat option" where
  "find_field fs key =
     (case field_index (\<lambda>tag. tag = key) fs of
        Some i \<Rightarrow> Some i
      | None \<Rightarrow> field_index (\<lambda>tag. foldKey tag = foldKey key) fs)"

text \<open>\<open>store\<close> sets one key of a map value.\<close>

fun store :: "string \<Rightarrow> 'v \<Rightarrow> (string \<times> 'v) list \<Rightarrow> (string \<times> 'v) list" where
  "store k v [] = [(k, v)]"
| "store k v ((k', v') # rest) =
     (if k < k' then (k, v) # (k', v') # rest
      else if k = k' then (k, v) # rest
      else (k', v') # store k v rest)"

text \<open>
  Decoding writes into the value that is already there, as \<open>encoding/json\<close> does;
  \<open>UnmarshalRequest\<close> starts it on the zero \<open>Request\<close>.  \<open>null\<close> makes an interface, slice
  or map nil and leaves anything else as it is.  A member of an object that no field
  matches is skipped.  A member that matches a field is decoded into that field's present
  value, so that two members for one field merge: a struct keeps the fields the later
  member does not name, a map keeps its other keys (each entry itself is decoded from the
  zero value), and element \<open>i\<close> of a slice starts from what the array holds at \<open>i\<close>.  An
  \<open>interface{}\<close> is always given a new value.  An empty array gives a new empty slice.
  A value of the wrong kind is an \<open>UnmarshalTypeError\<close>, after which \<open>UnmarshalRequest\<close>
  returns no request.
\<close>

fun slice_array :: "'f gval \<Rightarrow> 'f gval list" where
  "slice_array (GSlice vs spare) = vs @ spare"
| "slice_array v = []"

fun map_entries :: "'f gval \<Rightarrow> (string \<times> 'f gval) list" where
  "map_entries (GMap kvs) = kvs"
| "map_entries v = []"

text \<open>
  The fields of the struct being written into.  Go's typing makes it a struct of the
  right shape; for any other value the zero fields stand in.
\<close>

definition struct_fields ::
  "('n, 'f) strconv \<Rightarrow> (string \<times> bool \<times> ty) list \<Rightarrow> 'f gval \<Rightarrow> 'f gval list" where
  "struct_fields sc fs cur =
     (case cur of
        GStruct vs \<Rightarrow> if length vs = length fs then vs else zeroFields sc fs
      | _ \<Rightarrow> zeroFields sc fs)"

fun decode :: "('n, 'f) strconv \<Rightarrow> ty \<Rightarrow> 'n json \<Rightarrow> 'f gval \<Rightarrow> json_error + 'f gval"
  and decode_list ::
    "('n, 'f) strconv \<Rightarrow> ty \<Rightarrow> 'n json list \<Rightarrow> 'f gval list \<Rightarrow> json_error + 'f gval list"
  and decode_entries ::
    "('n, 'f) strconv \<Rightarrow> ty \<Rightarrow> (string \<times> 'n json) list \<Rightarrow> (string \<times> 'f gval) list
       \<Rightarrow> json_error + (string \<times> 'f gval) list"
  and decode_members ::
    "('n, 'f) strconv \<Rightarrow> (string \<times> bool \<times> ty) list \<Rightarrow> (string \<times> 'n json) list \<Rightarrow> 'f gval list
       \<Rightarrow> json_error + 'f gval list" where
  "decode sc t JNull cur =
     (case t of
        TInterface \<Rightarrow> Inr GNil
      | TSlice elem \<Rightarrow> Inr GNil
      | TMap elem \<Rightarrow> Inr GNil
      | _ \<Rightarrow> Inr cur)"
| "decode sc t (JBool b) cur =
     (case t of
        TBool \<Rightarrow> Inr (GBool b)
      | TInterface \<Rightarrow> Inr (GBool b)
      | _ \<Rightarrow> Inl UnmarshalTypeError)"
| "decode sc t (JNumber n) cur =
     (case t of
        TUint \<Rightarrow> (case ParseUint sc n of None \<Rightarrow> Inl UnmarshalTypeError | Some u \<Rightarrow> Inr (GUint u))
      | TInt64 \<Rightarrow> (case ParseInt sc n of None \<Rightarrow> Inl UnmarshalTypeError | Some i \<Rightarrow> Inr (GInt64 i))
      | TFloat64 \<Rightarrow> (case ParseFloat sc n of None \<Rightarrow> Inl UnmarshalTypeError | Some f \<Rightarrow> Inr (GFloat64 f))
      | TInterface \<Rightarrow> (case ParseFloat sc n of None \<Rightarrow> Inl UnmarshalTypeError | Some f \<Rightarrow> Inr (GFloat64 f))
      | _ \<Rightarrow> Inl UnmarshalTypeError)"
| "decode sc t (JString s) cur =
     (case t of
        TString \<Rightarrow> Inr (GString s)
      | TInterface \<Rightarrow> Inr (GString s)
      | _ \<Rightarrow> Inl UnmarshalTypeError)"
| "decode sc t (JArray js) cur =
     (case t of
        TInterface \<Rightarrow>
          (case decode_list sc TInterface js [] of Inl e \<Rightarrow> Inl e | Inr vs \<Rightarrow> Inr (GSlice vs []))
      | TSlice elem \<Rightarrow>
          (if js = [] then Inr (GSlice [] [])
           else
             (case decode_list sc elem js (slice_array cur) of
                Inl e \<Rightarrow> Inl e
              | Inr vs \<Rightarrow> Inr (GSlice vs (drop (length js) (slice_array cur)))))
      | _ \<Rightarrow> Inl UnmarshalTypeError)"
| "decode sc t (JObject ms) cur =
     (case t of
        TInterface \<Rightarrow>
          (case decode_entries sc TInterface ms [] of Inl e \<Rightarrow> Inl e | Inr kvs \<Rightarrow> Inr (GMap kvs))
      | TMap elem \<Rightarrow>
          (case decode_entries sc elem ms (map_entries cur) of Inl e \<Rightarrow> Inl e | Inr kvs \<Rightarrow> Inr (GMap kvs))
      | TStruct fs \<Rightarrow>
          (case decode_members sc fs ms (struct_fields sc fs cur) of
             Inl e \<Rightarrow> Inl e
           | Inr vs \<Rightarrow> Inr (GStruct vs))
      | _ \<Rightarrow> Inl UnmarshalTypeError)"
| "decode_list sc t [] array = Inr []"
| "decode_list sc t (j # js) array =
     (case decode sc t j (case array of [] \<Rightarrow> zeroValue sc t | a # _ \<Rightarrow> a) of
        Inl e \<Rightarrow> Inl e
      | Inr v \<Rightarrow> (case decode_list sc t js (tl array) of Inl e \<Rightarrow> Inl e | Inr vs \<Rightarrow> Inr (v # vs)))"
| "decode_entries sc t [] kvs = Inr kvs"
| "decode_entries sc t ((k, j) # ms) kvs =
     (case decode sc t j (zeroValue sc t) of
        Inl e \<Rightarrow> Inl e
      | Inr v \<Rightarrow> decode_entries sc t ms (store k v kvs))"
| "decode_members sc fs [] vs = Inr vs"
| "decode_members sc fs ((k, j) # ms) vs =
     (case find_field fs k of
        None \<Rightarrow> decode_members sc fs ms vs
      | Some i \<Rightarrow>
          (case decode sc (snd (snd (fs ! i))) j (vs ! i) of
             Inl e \<Rightarrow> Inl e
           | Inr v \<Rightarrow> decode_members sc fs ms (vs[i := v])))"

definition isEmptyValue :: "('n, 'f) strconv \<Rightarrow> ty \<Rightarrow> 'f gval \<Rightarrow> bool" where
  "isEmptyValue sc t v =
     (case t of
        TInterface \<Rightarrow> v = GNil
      | _ \<Rightarrow>
          (case v of
             GNil \<Rightarrow> True
           | GBool b \<Rightarrow> \<not> b
           | GString s \<Rightarrow> s = []
           | GUint u \<Rightarrow> u = 0
           | GInt64 i \<Rightarrow> i = 0
           | GFloat64 f \<Rightarrow> FloatIsZero sc f
           | GSlice vs spare \<Rightarrow> vs = []
           | GMap kvs \<Rightarrow> kvs = []
           | GStruct vs \<Rightarrow> False))"

text \<open>
  Encoding writes every field of a struct under its name, in the order of the
  declaration, and leaves out an empty \<open>omitempty\<close> field.  A value that does not have
  the type it is encoded at cannot arise in Go, and a struct inside an \<open>interface{}\<close>
  would need its type, which \<open>gval\<close> does not record (\<open>Unmarshal\<close> never puts one
  there); for both the answer is \<open>NotModelled\<close>.
\<close>

fun encode :: "('n, 'f) strconv \<Rightarrow> ty \<Rightarrow> 'f gval \<Rightarrow> json_error + 'n json"
  and encode_list :: "('n, 'f) strconv \<Rightarrow> ty \<Rightarrow> 'f gval list \<Rightarrow> json_error + 'n json list"
  and encode_entries ::
    "('n, 'f) strconv \<Rightarrow> ty \<Rightarrow> (string \<times> 'f gval) list \<Rightarrow> json_error + (string \<times> 'n json) list"
  and encode_fields ::
    "('n, 'f) strconv \<Rightarrow> (string \<times> bool \<times> ty) list \<Rightarrow> 'f gval list
       \<Rightarrow> json_error + (string \<times> 'n json) list" where
  "encode sc t GNil =
     (case t of
        TInterface \<Rightarrow> Inr JNull
      | TSlice elem \<Rightarrow> Inr JNull
      | TMap elem \<Rightarrow> Inr JNull
      | _ \<Rightarrow> Inl NotModelled)"
| "encode sc t (GBool b) =
     (case t of TBool \<Rightarrow> Inr (JBool b) | TInterface \<Rightarrow> Inr (JBool b) | _ \<Rightarrow> Inl NotModelled)"
| "encode sc t (GString s) =
     (case t of
        TString \<Rightarrow> Inr (JString (ToValidUTF8 sc s))
      | TInterface \<Rightarrow> Inr (JString (ToValidUTF8 sc s))
      | _ \<Rightarrow> Inl NotModelled)"
| "encode sc t (GUint u) =
     (case t of
        TUint \<Rightarrow> Inr (JNumber (FormatUint sc u))
      | TInterface \<Rightarrow> Inr (JNumber (FormatUint sc u))
      | _ \<Rightarrow> Inl NotModelled)"
| "encode sc t (GInt64 i) =
     (case t of
        TInt64 \<Rightarrow> Inr (JNumber (FormatInt sc i))
      | TInterface \<Rightarrow> Inr (JNumber (FormatInt sc i))
      | _ \<Rightarrow> Inl NotModelled)"
| "encode sc t (GFloat64 f) =
     (case t of
        TFloat64 \<Rightarrow> (case FormatFloat sc f of None \<Rightarrow> Inl UnsupportedValue | Some n \<Rightarrow> Inr (JNumber n))
      | TInterface \<Rightarrow> (case FormatFloat sc f of None \<Rightarrow> Inl UnsupportedValue | Some n \<Rightarrow> Inr (JNumber n))
      | _ \<Rightarrow> Inl NotModelled)"
| "encode sc t (GSlice vs spare) =
     (case t of
        TInterface \<Rightarrow> (case encode_list sc TInterface vs of Inl e \<Rightarrow> Inl e | Inr js \<Rightarrow> Inr (JArray js))
      | TSlice elem \<Rightarrow> (case encode_list sc elem vs of Inl e \<Rightarrow> Inl e | Inr js \<Rightarrow> Inr (JArray js))
      | _ \<Rightarrow> Inl NotModelled)"
| "encode sc t (GMap kvs) =
     (case t of
        TInterface \<Rightarrow> (case encode_entries sc TInterface kvs of Inl e \<Rightarrow> Inl e | Inr ms \<Rightarrow> Inr (JObject ms))
      | TMap elem \<Rightarrow> (case encode_entries sc elem kvs of Inl e \<Rightarrow> Inl e | Inr ms \<Rightarrow> Inr (JObject ms))
      | _ \<Rightarrow> Inl NotModelled)"
| "encode sc t (GStruct vs) =
     (case t of
        TStruct fs \<Rightarrow> (case encode_fields sc fs vs of Inl e \<Rightarrow> Inl e | Inr ms \<Rightarrow> Inr (JObject ms))
      | _ \<Rightarrow> Inl NotModelled)"
| "encode_list sc t [] = Inr []"
| "encode_list sc t (v # vs) =
     (case encode sc t v of
        Inl e \<Rightarrow> Inl e
      | Inr j \<Rightarrow> (case encode_list sc t vs of Inl e \<Rightarrow> Inl e | Inr js \<Rightarrow> Inr (j # js)))"
| "encode_entries sc t [] = Inr []"
| "encode_entries sc t ((k, v) # kvs) =
     (case encode sc t v of
        Inl e \<Rightarrow> Inl e
      | Inr j \<Rightarrow>
          (case encode_entries sc t kvs of
             Inl e \<Rightarrow> Inl e
           | Inr ms \<Rightarrow> Inr ((ToValidUTF8 sc k, j) # ms)))"
| "encode_fields sc [] [] = Inr []"
| "encode_fields sc ((tag, omitempty, t) # fs) (v # vs) =
     (if omitempty \<and> isEmptyValue sc t v then encode_fields sc fs vs
      else
        (case encode sc t v of
           Inl e \<Rightarrow> Inl e
         | Inr j \<Rightarrow>
             (case encode_fields sc fs vs of
                Inl e \<Rightarrow> Inl e
              | Inr ms \<Rightarrow> Inr ((tag, j) # ms))))"
| "encode_fields sc [] (v # vs) = Inl NotModelled"
| "encode_fields sc (f # fs) [] = Inl NotModelled"

text \<open>
  \<open>valid sc t v\<close>: \<open>v\<close> is a value of type \<open>t\<close> that the two directions carry over
  unchanged: strings and keys are valid UTF-8, floats are finite, an \<open>interface{}\<close> holds
  nil, a bool, a float64, a string, a slice or a map of such values (what \<open>Unmarshal\<close>
  itself puts there), the array behind a slice holds nothing past its length, map entries
  are in strictly ascending key order, and an \<open>omitempty\<close> field that is empty is the zero
  value.
\<close>

fun valid :: "('n, 'f) strconv \<Rightarrow> ty \<Rightarrow> 'f gval \<Rightarrow> bool"
  and valid_list :: "('n, 'f) strconv \<Rightarrow> ty \<Rightarrow> 'f gval list \<Rightarrow> bool"
  and valid_entries :: "('n, 'f) strconv \<Rightarrow> ty \<Rightarrow> (string \<times> 'f gval) list \<Rightarrow> bool"
  and valid_fields :: "('n, 'f) strconv \<Rightarrow> (string \<times> bool \<times> ty) list \<Rightarrow> 'f gval list \<Rightarrow> bool" where
  "valid sc t GNil = (case t of TInterface \<Rightarrow> True | TSlice elem \<Rightarrow> True | TMap elem \<Rightarrow> True | _ \<Rightarrow> False)"
| "valid sc t (GBool b) = (case t of TBool \<Rightarrow> True | TInterface \<Rightarrow> True | _ \<Rightarrow> False)"
| "valid sc t (GString s) =
     (case t of TString \<Rightarrow> ToValidUTF8 sc s = s | TInterface \<Rightarrow> ToValidUTF8 sc s = s | _ \<Rightarrow> False)"
| "valid sc t (GUint u) = (case t of TUint \<Rightarrow> True | _ \<Rightarrow> False)"
| "valid sc t (GInt64 i) = (case t of TInt64 \<Rightarrow> True | _ \<Rightarrow> False)"
| "valid sc t (GFloat64 f) =
     (case t of TFloat64 \<Rightarrow> FormatFloat sc f \<noteq> None | TInterface \<Rightarrow> FormatFloat sc f \<noteq> None | _ \<Rightarrow> False)"
| "valid sc t (GSlice vs spare) =
     (case t of
        TInterface \<Rightarrow> spare = [] \<and> valid_list sc TInterface vs
      | TSlice elem \<Rightarrow> spare = [] \<and> valid_list sc elem vs
      | _ \<Rightarrow> False)"
| "valid sc t (GMap kvs) =
     (case t of TInterface \<Rightarrow> valid_entries sc TInterface kvs | TMap elem \<Rightarrow> valid_entries sc elem kvs | _ \<Rightarrow> False)"
| "valid sc t (GStruct vs) = (case t of TStruct fs \<Rightarrow> valid_fields sc fs vs | _ \<Rightarrow> False)"
| "valid_list sc t [] = True"
| "valid_list sc t (v # vs) = (valid sc t v \<and> valid_list sc t vs)"
| "valid_entries sc t [] = True"
| "valid_entries sc t ((k, v) # kvs) =
     (ToValidUTF8 sc k = k \<and> (\<forall>k' \<in> fst ` set kvs. k < k') \<and> valid sc t v \<and> valid_entries sc t kvs)"
| "valid_fields sc [] [] = True"
| "valid_fields sc ((tag, omitempty, t) # fs) (v # vs) =
     (valid sc t v \<and> (omitempty \<and> isEmptyValue sc t v \<longrightarrow> v = zeroValue sc t) \<and> valid_fields sc fs vs)"
| "valid_fields sc [] (v # vs) = False"
| "valid_fields sc (f # fs) [] = False"

text \<open>\<open>wf_ty\<close>: no struct has two fields of the same JSON name.\<close>

fun wf_ty :: "ty \<Rightarrow> bool" and wf_fields :: "(string \<times> bool \<times> ty) list \<Rightarrow> bool" where
  "wf_ty (TSlice t) = wf_ty t"
| "wf_ty (TMap t) = wf_ty t"
| "wf_ty (TStruct fs) = (distinct (map fst fs) \<and> wf_fields fs)"
| "wf_ty t = True"
| "wf_fields [] = True"
| "wf_fields ((tag, omitempty, t) # fs) = (wf_ty t \<and> wf_fields fs)"

text \<open>What \<open>strconv\<close> promises: a number it has written parses back to the same value.\<close>

definition strconv_ok :: "('n, 'f) strconv \<Rightarrow> bool" where
  "strconv_ok sc \<longleftrightarrow>
     (\<forall>u. ParseUint sc (FormatUint sc u) = Some u)
   \<and> (\<forall>i. ParseInt sc (FormatInt sc i) = Some i)
   \<and> (\<forall>f n. FormatFloat sc f = Some n \<longrightarrow> ParseFloat sc n = Some f)"

text \<open>
  \<open>strip t j\<close> is the message \<open>j\<close> without the members that select no field, at every
  object that is decoded into a struct; \<open>known t j\<close> says that \<open>j\<close> has no such member.
  What stands in an \<open>interface{}\<close> slot, and the keys of a map, are left alone.
\<close>

fun strip :: "ty \<Rightarrow> 'n json \<Rightarrow> 'n json"
  and strip_list :: "ty \<Rightarrow> 'n json list \<Rightarrow> 'n json list"
  and strip_entries :: "ty \<Rightarrow> (string \<times> 'n json) list \<Rightarrow> (string \<times> 'n json) list"
  and strip_members :: "(string \<times> bool \<times> ty) list \<Rightarrow> (string \<times> 'n json) list \<Rightarrow> (string \<times> 'n json) list" where
  "strip t JNull = JNull"
| "strip t (JBool b) = JBool b"
| "strip t (JNumber n) = JNumber n"
| "strip t (JString s) = JString s"
| "strip t (JArray js) = (case t of TSlice elem \<Rightarrow> JArray (strip_list elem js) | _ \<Rightarrow> JArray js)"
| "strip t (JObject ms) =
     (case t of
        TMap elem \<Rightarrow> JObject (strip_entries elem ms)
      | TStruct fs \<Rightarrow> JObject (strip_members fs ms)
      | _ \<Rightarrow> JObject ms)"
| "strip_list t [] = []"
| "strip_list t (j # js) = strip t j # strip_list t js"
| "strip_entries t [] = []"
| "strip_entries t ((k, j) # ms) = (k, strip t j) # strip_entries t ms"
| "strip_members fs [] = []"
| "strip_members fs ((k, j) # ms) =
     (case find_field fs k of
        None \<Rightarrow> strip_members fs ms
      | Some i \<Rightarrow> (k, strip (snd (snd (fs ! i))) j) # strip_members fs ms)"

fun known :: "ty \<Rightarrow> 'n json \<Rightarrow> bool"
  and known_list :: "ty \<Rightarrow> 'n json list \<Rightarrow> bool"
  and known_entries :: "ty \<Rightarrow> (string \<times> 'n json) list \<Rightarrow> bool"
  and known_members :: "(string \<times> bool \<times> ty) list \<Rightarrow> (string \<times> 'n json) list \<Rightarrow> bool" where
  "known t JNull = True"
| "known t (JBool b) = True"
| "known t (JNumber n) = True"
| "known t (JString s) = True"
| "known t (JArray js) = (case t of TSlice elem \<Rightarrow> known_list elem js | _ \<Rightarrow> True)"
| "known t (JObject ms) =
     (case t of
        TMap elem \<Rightarrow> known_entries elem ms
      | TStruct fs \<Rightarrow> known_members fs ms
      | _ \<Rightarrow> True)"
| "known_list t [] = True"
| "known_list t (j # js) = (known t j \<and> known_list t js)"
| "known_entries t [] = True"
| "known_entries t ((k, j) # ms) = (known t j \<and> known_entries t ms)"
| "known_members fs [] = True"
| "known_members fs ((k, j) # ms) =
     (case find_field fs k of
        None \<Rightarrow> False
      | Some i \<Rightarrow> known (snd (snd (fs ! i))) j \<and> known_members fs ms)"

subsection \<open>The declared types\<close>

definition Resource_ty :: ty where
  "Resource_ty = TStruct
     [(''cpus'', False, TUint), (''gpus'', False, TUint), (''hdd'', False, TString),
      (''ram'', False, TString), (''gpuMem'', False, TString)]"

definition RunnerCustom_ty :: ty where
  "RunnerCustom_ty = TStruct [(''slack_destination'', False, TString)]"

definition Database_ty :: ty where
  "Database_ty = TStruct
     [(''apiKey'', False, TString), (''authDomain'', False, TString), (''databaseURL'', False, TString),
      (''messagingSenderId'', False, TInt64), (''projectId'', False, TString),
      (''storageBucket'', False, TString), (''type'', False, TString), (''use_email_auth'', False, TBool)]"

definition Config_ty :: ty where
  "Config_ty = TStruct
     [(''cloud'', False, TInterface), (''database'', False, Database_ty),
      (''saveWorkspaceFrequency'', False, TString), (''experimentLifetime'', False, TString),
      (''verbose'', False, TString), (''env'', False, TMap TString), (''pip'', False, TSlice TString),
      (''runner'', False, RunnerCustom_ty)]"

definition Info_ty :: ty where
  "Info_ty = TStruct []"

definition Artifact_ty :: ty where
  "Artifact_ty = TStruct
     [(''bucket'', False, TString), (''key'', False, TString), (''hash'', True, TString),
      (''local'', True, TString), (''mutable'', False, TBool), (''unpack'', False, TBool),
      (''qualified'', False, TString)]"

definition Experiment_ty :: ty where
  "Experiment_ty = TStruct
     [(''args'', False, TSlice TString), (''artifacts'', False, TMap Artifact_ty),
      (''filename'', False, TString), (''git'', False, TInterface), (''info'', False, Info_ty),
      (''key'', False, TString), (''metric'', False, TInterface), (''project'', False, TInterface),
      (''pythonenv'', False, TSlice TString), (''pythonver'', False, TInt64),
      (''resources_needed'', False, Resource_ty), (''status'', False, TString),
      (''time_added'', False, TFloat64), (''max_duration'', False, TString),
      (''time_finished'', False, TInterface), (''time_last_checkpoint'', False, TInterface),
      (''time_started'', False, TInterface)]"

definition Request_ty :: ty where
  "Request_ty = TStruct [(''config'', False, Config_ty), (''experiment'', False, Experiment_ty)]"

definition UnmarshalRequest :: "('n, 'f) strconv \<Rightarrow> 'n json \<Rightarrow> json_error + 'f gval" where
  "UnmarshalRequest sc data = decode sc Request_ty data (zeroValue sc Request_ty)"

definition Marshal :: "('n, 'f) strconv \<Rightarrow> 'f gval \<Rightarrow> json_error + 'n json" where
  "Marshal sc r = encode sc Request_ty r"

text \<open>Parse, then serialise again.\<close>

definition reserialize :: "('n, 'f) strconv \<Rightarrow> 'n json \<Rightarrow> json_error + 'n json" where
  "reserialize sc data = (case UnmarshalRequest sc data of Inl e \<Rightarrow> Inl e | Inr r \<Rightarrow> Marshal sc r)"

fun object_keys :: "'n json \<Rightarrow> string list" where
  "object_keys (JObject ms) = map fst ms"
| "object_keys j = []"

text \<open>The value under a key of a JSON object; \<open>null\<close> where there is none.\<close>

fun member_of :: "'n json \<Rightarrow> string \<Rightarrow> 'n json" where
  "member_of (JObject ms) k = (case map_of ms k of None \<Rightarrow> JNull | Some j \<Rightarrow> j)"
| "member_of j k = JNull"

subsection \<open>Sample data\<close>

text \<open>
  A \<open>strconv\<close> for examples, in which every number literal is a whole number and so
  is every float.
\<close>

definition whole_numbers :: "(int, int) strconv" where
  "whole_numbers =
     \<lparr>ParseUint = (\<lambda>n. if 0 \<le> n \<and> n < 2 ^ 64 then Some (word_of_int n) else None),
      FormatUint = uint,
      ParseInt = (\<lambda>n. if - (2 ^ 63) \<le> n \<and> n < 2 ^ 63 then Some (word_of_int n) else None),
      FormatInt = sint,
      ParseFloat = Some,
      FormatFloat = Some,
      FloatZero = 0,
      FloatIsZero = (\<lambda>f. f = 0),
      ToValidUTF8 = id\<rparr>"

definition sample_request :: "int gval" where
  "sample_request = GStruct
     [GStruct
        [GNil,
         GStruct [GString ''k'', GString ''d'', GString ''u'', GInt64 42, GString ''p'',
                  GString ''b'', GString ''firebase'', GBool True],
         GString ''10m'', GString ''30m'', GString ''debug'',
         GMap [(''PATH'', GString ''/bin'')], GSlice [GString ''numpy''] [],
         GStruct [GString ''#runs'']],
      GStruct
        [GSlice [GString ''--epochs'', GString ''10''] [],
         GMap [(''modeldir'',
                GStruct [GString ''b'', GString ''k'', GString [], GString ''/tmp/m'',
                         GBool True, GBool False, GString ''s3://b/k''])],
         GString ''train.py'',
         GMap [(''branch'', GString ''master''), (''dirty'', GBool False)],
         GStruct [],
         GString ''exp-1'',
         GNil, GString ''p'', GSlice [] [], GInt64 3,
         GStruct [GUint 2, GUint 1, GString ''10GB'', GString ''4GB'', GString []],
         GString ''waiting'', GFloat64 1507052973, GString ''1h'', GNil, GNil, GFloat64 5]]"

definition sample_message :: "int json" where
  "sample_message = JObject
     [(''experiment'', JObject [(''key'', JString ''exp-1''), (''owner'', JString ''ada'')]),
      (''extra'', JBool True)]"

section \<open>Properties of the disk tracker\<close>

lemma times_085_1000: "times_085 1000 = 850"
  by code_simp

text \<open>
  Values of \<open>uint64(float64(x) * 0.85)\<close> where the rounding shows: \<open>2^53 + 3\<close> is not a
  double, and \<open>2^64 - 1\<close> becomes \<open>2^64\<close> before it is multiplied.
\<close>

lemma times_085_samples:
  "times_085 0 = 0"
  "times_085 1 = 0"
  "times_085 20 = 17"
  "times_085 9007199254740995 = 7656119366529846"
  "times_085 18446744073709551615 = 15679732462653118464"
  by code_simp+

lemma sub_mod_nat:
  fixes a b N :: nat
  assumes "a < N" and "b < N"
  shows "(if b \<le> a then a - b else a + N - b) = (a + N - b) mod N"
proof (cases "b \<le> a")
  case True
  then have "a + N - b = (a - b) + N"
    by simp
  moreover have "a - b < N"
    using assms(1) by simp
  ultimately show ?thesis
    using True by (simp only: mod_add_self2 mod_less if_True)
next
  case False
  then have "a + N - b < N"
    using assms(2) by simp
  then show ?thesis
    using False by (simp only: mod_less if_False)
qed

lemma unat_sub_mod64:
  fixes x y :: uint64
  shows "unat (x - y) = (unat x + 2 ^ 64 - unat y) mod 2 ^ 64"
proof -
  have "unat x < 2 ^ LENGTH(64)" and "unat y < 2 ^ LENGTH(64)"
    by (rule unsigned_less)+
  then have "(if unat y \<le> unat x then unat x - unat y else unat x + 2 ^ LENGTH(64) - unat y)
      = (unat x + 2 ^ LENGTH(64) - unat y) mod 2 ^ LENGTH(64)"
    by (rule sub_mod_nat)
  then have "unat (x - y) = (unat x + 2 ^ LENGTH(64) - unat y) mod 2 ^ LENGTH(64)"
    by (simp only: unat_sub_if')
  then show ?thesis
    by (simp only: len_bit0 len_num1 mult_2 one_add_one numeral_Bit0 [symmetric])
qed

text \<open>
  Claim C1 says that AllocDisk grants a request of size \<open>s\<close> exactly when the space the
  file system reports, less what is allocated and less \<open>s\<close>, is above \<open>SoftMinFree\<close>.  The
  comparison in the source is the other way round.  With 1000 bytes available, nothing
  allocated and a floor of 100, a request for 10 bytes leaves 990, well above the floor,
  and is refused with the insufficient-space error; the tracker is unchanged.
\<close>

theorem AllocDisk_refuses_ample_space:
  "AllocDisk (\<lambda>d. Some \<lparr>Bavail = 1000, Bsize = 1\<rparr>) 10
     \<lparr>Device = ''/tmp'', AllocSpace = 0, SoftMinFree = 100, InitErr = None\<rparr>
   = (Inl InsufficientSpace,
      \<lparr>Device = ''/tmp'', AllocSpace = 0, SoftMinFree = 100, InitErr = None\<rparr>)"
  by (simp add: AllocDisk_def fs_avail_def)

text \<open>
  What the source decides, for every input: the request is granted exactly when the
  64-bit difference is not above \<open>SoftMinFree\<close>.
\<close>

lemma AllocDisk_granted_iff:
  assumes "statfs (Device t) = Some fs"
  shows "(\<exists>a t'. AllocDisk statfs s t = (Inr a, t'))
     \<longleftrightarrow> \<not> SoftMinFree t < fs_avail fs - (AllocSpace t + s)"
  using assms by (simp add: AllocDisk_def)

text \<open>
  Claim C3, as amended.  When the file system can be read, SetDiskLimits stores and
  returns as \<open>SoftMinFree\<close> the value \<open>uint64(float64(available) * 0.85)\<close> if \<open>minFree\<close> is
  zero, and otherwise the smaller of \<open>minFree\<close> and that value; the allocated total becomes
  zero if the device differs from the tracked one and is kept if it is the same.  When the
  file system cannot be read the error is returned and the tracker is left as it was.
\<close>

theorem SetDiskLimits_result:
  "(statfs device = Some fs \<longrightarrow>
      SetDiskLimits statfs device minFree t =
        (Inr (if minFree = 0 then times_085 (fs_avail fs) else min minFree (times_085 (fs_avail fs))),
         t\<lparr>AllocSpace := (if device \<noteq> Device t then 0 else AllocSpace t),
           SoftMinFree := (if minFree = 0 then times_085 (fs_avail fs) else min minFree (times_085 (fs_avail fs))),
           Device := device, InitErr := None\<rparr>))
   \<and> (statfs device = None \<longrightarrow> SetDiskLimits statfs device minFree t = (Inl StatfsFailed, t))"
  by (auto simp: SetDiskLimits_def Let_def min_def)

theorem SetDiskLimits_result_witness:
  "SetDiskLimits (\<lambda>d. if d = ''/data'' then Some \<lparr>Bavail = 1000, Bsize = 1\<rparr> else None) ''/data'' 100
     \<lparr>Device = ''/tmp'', AllocSpace = 7, SoftMinFree = 3, InitErr = Some StatfsFailed\<rparr>
   = (Inr 100, \<lparr>Device = ''/data'', AllocSpace = 0, SoftMinFree = 100, InitErr = None\<rparr>)
   \<and> SetDiskLimits (\<lambda>d. if d = ''/data'' then Some \<lparr>Bavail = 1000, Bsize = 1\<rparr> else None) ''/none'' 100
     \<lparr>Device = ''/tmp'', AllocSpace = 7, SoftMinFree = 3, InitErr = None\<rparr>
   = (Inl StatfsFailed, \<lparr>Device = ''/tmp'', AllocSpace = 7, SoftMinFree = 3, InitErr = None\<rparr>)"
  using SetDiskLimits_result
          [of "\<lambda>d. if d = ''/data'' then Some \<lparr>Bavail = 1000, Bsize = 1\<rparr> else None" "''/data''"
              "\<lparr>Bavail = 1000, Bsize = 1\<rparr>" 100
              "\<lparr>Device = ''/tmp'', AllocSpace = 7, SoftMinFree = 3, InitErr = Some StatfsFailed\<rparr>"]
        SetDiskLimits_result
          [of "\<lambda>d. if d = ''/data'' then Some \<lparr>Bavail = 1000, Bsize = 1\<rparr> else None" "''/none''"
              "\<lparr>Bavail = 1000, Bsize = 1\<rparr>" 100
              "\<lparr>Device = ''/tmp'', AllocSpace = 7, SoftMinFree = 3, InitErr = None\<rparr>"]
  by (simp add: fs_avail_def times_085_1000)

text \<open>
  Claim C3 as stated fails: with 1000 bytes available and \<open>minFree = 100\<close> the maximum of
  \<open>minFree\<close> and 0.85 times the available space is 850, and SetDiskLimits returns 100.
\<close>

theorem SetDiskLimits_takes_smaller:
  "fst (SetDiskLimits (\<lambda>d. Some \<lparr>Bavail = 1000, Bsize = 1\<rparr>) ''/tmp'' 100
          \<lparr>Device = ''/tmp'', AllocSpace = 0, SoftMinFree = 0, InitErr = None\<rparr>) = Inr 100
   \<and> max (100 :: uint64) (times_085 (1000 * 1)) = 850"
  by (simp add: SetDiskLimits_def fs_avail_def times_085_1000)

text \<open>
  Claim C9.  A release that passes the checks (a reservation of the tracked device, no
  recorded initialisation error) always succeeds and subtracts the size in 64-bit
  arithmetic: the new total is the old one less the size modulo \<open>2^64\<close>, and when the size
  is above the total the counter wraps to \<open>total + 2^64 - size\<close>.
\<close>

theorem Release_wraps:
  assumes "InitErr t = None" and "alloc_device a = Device t"
  shows "Release (Some a) t = (None, t\<lparr>AllocSpace := AllocSpace t - alloc_size a\<rparr>)
    \<and> unat (AllocSpace t - alloc_size a) = (unat (AllocSpace t) + 2 ^ 64 - unat (alloc_size a)) mod 2 ^ 64
    \<and> (AllocSpace t < alloc_size a \<longrightarrow>
         unat (AllocSpace t - alloc_size a) = unat (AllocSpace t) + 2 ^ 64 - unat (alloc_size a))"
proof -
  have "Release (Some a) t = (None, t\<lparr>AllocSpace := AllocSpace t - alloc_size a\<rparr>)"
    using assms by (simp add: Release_def)
  moreover have "AllocSpace t < alloc_size a \<longrightarrow>
         unat (AllocSpace t - alloc_size a) = unat (AllocSpace t) + 2 ^ 64 - unat (alloc_size a)"
    by (simp add: unat_sub_if' word_less_nat_alt)
  ultimately show ?thesis
    using unat_sub_mod64 by blast
qed

text \<open>Releasing the same reservation of 10 bytes twice: the second release wraps.\<close>

theorem Release_wraps_witness:
  "Release (Some \<lparr>alloc_device = ''/tmp'', alloc_size = 10\<rparr>)
     (snd (Release (Some \<lparr>alloc_device = ''/tmp'', alloc_size = 10\<rparr>)
        \<lparr>Device = ''/tmp'', AllocSpace = 10, SoftMinFree = 100, InitErr = None\<rparr>))
   = (None, \<lparr>Device = ''/tmp'', AllocSpace = 18446744073709551606, SoftMinFree = 100, InitErr = None\<rparr>)
   \<and> unat (0 - 10 :: uint64) = 18446744073709551606"
  using Release_wraps [of "\<lparr>Device = ''/tmp'', AllocSpace = 0, SoftMinFree = 100, InitErr = None\<rparr>"
                          "\<lparr>alloc_device = ''/tmp'', alloc_size = 10\<rparr>"]
  by (simp add: Release_def)

section \<open>Properties of align\<close>

lemma align_add_dom: "dom (fst (align_add es m added)) = dom m \<union> set es"
  by (induction es arbitrary: m added) (auto split: if_splits)

lemma align_add_added: "set (snd (align_add es m added)) = set added \<union> (set es - dom m)"
  by (induction es arbitrary: m added) (auto split: if_splits)

lemma align_add_keeps: "m n \<noteq> None \<Longrightarrow> fst (align_add es m added) n = m n"
  by (induction es arbitrary: m added) auto

lemma align_remove_dom:
  "dom (fst (align_remove ex vs m removed)) = dom m - (set vs - set ex)"
  by (induction vs arbitrary: m removed) (auto split: if_splits)

lemma align_remove_removed:
  "set (snd (align_remove ex vs m removed)) = set removed \<union> ((set vs \<inter> dom m) - set ex)"
  by (induction vs arbitrary: m removed) (auto split: if_splits)

lemma align_remove_keeps: "n \<in> set ex \<Longrightarrow> fst (align_remove ex vs m removed) n = m n"
  by (induction vs arbitrary: m removed) auto

lemma align_add_nothing: "set es \<subseteq> dom m \<Longrightarrow> align_add es m added = (m, added)"
  by (induction es arbitrary: m added) auto

lemma align_remove_nothing: "dom m \<subseteq> set ex \<Longrightarrow> align_remove ex vs m removed = (m, removed)"
  by (induction vs arbitrary: m removed) auto

text \<open>
  Claim C8.  Whatever the subscription map holds and whatever set of names the broker
  reports, one call of align leaves the map with exactly the reported names as keys;
  \<open>added\<close> holds the reported names that were not present, \<open>removed\<close> the present names
  that were not reported.  A second call with the same report (in whatever order the maps
  are ranged over) changes nothing and returns two empty lists.  The hypothesis says
  that the second loop visits every key of the map it ranges over.
\<close>

theorem align_converges:
  assumes "dom m \<union> set expected \<subseteq> set visit"
  shows "(case align expected visit m of (m', added, removed) \<Rightarrow>
           dom m' = set expected
         \<and> set added = set expected - dom m
         \<and> set removed = dom m - set expected
         \<and> align expected visit' m' = (m', [], []))"
proof -
  obtain s1 added where a: "align_add expected m [] = (s1, added)"
    by (cases "align_add expected m []")
  obtain s2 removed where r: "align_remove expected visit s1 [] = (s2, removed)"
    by (cases "align_remove expected visit s1 []")
  have d1: "dom s1 = dom m \<union> set expected"
    using align_add_dom [of expected m "[]"] a by simp
  have ad: "set added = set expected - dom m"
    using align_add_added [of expected m "[]"] a by simp
  have d2: "dom s2 = set expected"
    using align_remove_dom [of expected visit s1 "[]"] r d1 assms by auto
  have rm: "set removed = dom m - set expected"
    using align_remove_removed [of expected visit s1 "[]"] r d1 assms by auto
  have again: "align expected visit' s2 = (s2, [], [])"
    using d2 by (simp add: align_def align_add_nothing align_remove_nothing)
  show ?thesis
    using a r d2 ad rm again by (simp add: align_def)
qed

theorem align_converges_witness:
  "(case align [''b'', ''c''] [''c'', ''a'', ''b'']
          [''a'' \<mapsto> \<lparr>name = ''a'', rsc = None, cnt = 2\<rparr>, ''b'' \<mapsto> \<lparr>name = ''b'', rsc = None, cnt = 1\<rparr>] of
      (m', added, removed) \<Rightarrow>
        dom m' = {''b'', ''c''} \<and> set added = {''c''} \<and> set removed = {''a''}
        \<and> align [''b'', ''c''] [''b'', ''c''] m' = (m', [], []))"
  using align_converges
          [of "[''a'' \<mapsto> \<lparr>name = ''a'', rsc = None, cnt = 2\<rparr>, ''b'' \<mapsto> \<lparr>name = ''b'', rsc = None, cnt = 1\<rparr>]"
              "[''b'', ''c'']" "[''c'', ''a'', ''b'']" "[''b'', ''c'']"]
  by (auto split: prod.splits)

text \<open>
  Claim C10.  A subscription whose name is in the map and in the reported set keeps its
  record through align: the resource hint and the count of running instances are the
  ones it had.
\<close>

theorem align_frame:
  assumes "m n = Some s" and "n \<in> set expected"
  shows "fst (align expected visit m) n = Some s"
proof -
  obtain s1 added where a: "align_add expected m [] = (s1, added)"
    by (cases "align_add expected m []")
  obtain s2 removed where r: "align_remove expected visit s1 [] = (s2, removed)"
    by (cases "align_remove expected visit s1 []")
  have "s1 n = m n"
    using assms(1) align_add_keeps [of m n expected "[]"] a by simp
  moreover have "s2 n = s1 n"
    using assms(2) align_remove_keeps [of n expected visit s1 "[]"] r by simp
  ultimately show ?thesis
    using a r assms(1) by (simp add: align_def)
qed

theorem align_frame_witness:
  "fst (align [''b'', ''c''] [''c'', ''a'', ''b'']
          [''a'' \<mapsto> \<lparr>name = ''a'', rsc = None, cnt = 2\<rparr>,
           ''b'' \<mapsto> \<lparr>name = ''b'',
                      rsc = Some \<lparr>Cpus = 2, Gpus = 1, Hdd = ''10GB'', Ram = ''4GB'', GpuMem = []\<rparr>,
                      cnt = 1\<rparr>]) ''b''
   = Some \<lparr>name = ''b'',
           rsc = Some \<lparr>Cpus = 2, Gpus = 1, Hdd = ''10GB'', Ram = ''4GB'', GpuMem = []\<rparr>,
           cnt = 1\<rparr>"
  using align_frame
          [of "[''a'' \<mapsto> \<lparr>name = ''a'', rsc = None, cnt = 2\<rparr>,
                ''b'' \<mapsto> \<lparr>name = ''b'',
                           rsc = Some \<lparr>Cpus = 2, Gpus = 1, Hdd = ''10GB'', Ram = ''4GB'', GpuMem = []\<rparr>,
                           cnt = 1\<rparr>]"
              "''b''"
              "\<lparr>name = ''b'',
                rsc = Some \<lparr>Cpus = 2, Gpus = 1, Hdd = ''10GB'', Ram = ''4GB'', GpuMem = []\<rparr>,
                cnt = 1\<rparr>"
              "[''b'', ''c'']" "[''c'', ''a'', ''b'']"]
  by simp

section \<open>Properties of the fit test\<close>

text \<open>
  Claim C4.  When the size strings of both records parse (\<open>Ram\<close> and \<open>Hdd\<close> on both
  sides, and each \<open>GpuMem\<close> unless it is empty), \<open>Fit\<close> returns no error and the
  conjunction of the five comparisons, on the counts and on the parsed numbers of bytes;
  the earlier form of \<open>Fit\<close> returns the same truth value.  An empty \<open>GpuMem\<close> of the need
  takes the number \<open>ParseBytes\<close> returns for the empty string; the library returns 0
  with each of its errors, and then the comparison of \<open>GpuMem\<close> holds whatever the offer
  has.
\<close>

theorem Fit_componentwise:
  assumes "\<not> snd (parseBytes (Ram l))" and "\<not> snd (parseBytes (Ram r))"
    and "\<not> snd (parseBytes (Hdd l))" and "\<not> snd (parseBytes (Hdd r))"
    and "GpuMem l = [] \<or> \<not> snd (parseBytes (GpuMem l))"
    and "GpuMem r = [] \<or> \<not> snd (parseBytes (GpuMem r))"
  shows "Fit parseBytes l r =
           (Cpus l \<le> Cpus r \<and> Gpus l \<le> Gpus r
            \<and> fst (parseBytes (Hdd l)) \<le> fst (parseBytes (Hdd r))
            \<and> fst (parseBytes (Ram l)) \<le> fst (parseBytes (Ram r))
            \<and> fst (parseBytes (GpuMem l)) \<le> fst (parseBytes (GpuMem r)), None)
    \<and> Fit_unchecked parseBytes l r = fst (Fit parseBytes l r)
    \<and> (GpuMem l = [] \<and> fst (parseBytes []) = 0 \<longrightarrow>
         Fit parseBytes l r =
           (Cpus l \<le> Cpus r \<and> Gpus l \<le> Gpus r
            \<and> fst (parseBytes (Hdd l)) \<le> fst (parseBytes (Hdd r))
            \<and> fst (parseBytes (Ram l)) \<le> fst (parseBytes (Ram r)), None))"
proof -
  have main: "Fit parseBytes l r =
           (Cpus l \<le> Cpus r \<and> Gpus l \<le> Gpus r
            \<and> fst (parseBytes (Hdd l)) \<le> fst (parseBytes (Hdd r))
            \<and> fst (parseBytes (Ram l)) \<le> fst (parseBytes (Ram r))
            \<and> fst (parseBytes (GpuMem l)) \<le> fst (parseBytes (GpuMem r)), None)"
    using assms by (auto simp: Fit_def case_prod_beta)
  moreover have "Fit_unchecked parseBytes l r = fst (Fit parseBytes l r)"
    unfolding main by (auto simp: Fit_unchecked_def Let_def)
  ultimately show ?thesis
    by auto
qed

text \<open>
  A need with an empty \<open>GpuMem\<close> against an offer with 8GB of it fits; a need of 20GB of
  disk against an offer of 1GB does not.
\<close>

theorem Fit_componentwise_witness:
  "Fit (\<lambda>s. if s = ''1GB'' then (1000000000, False) else if s = ''8GB'' then (8000000000, False)
            else if s = ''20GB'' then (20000000000, False) else (0, True))
       \<lparr>Cpus = 2, Gpus = 1, Hdd = ''1GB'', Ram = ''1GB'', GpuMem = []\<rparr>
       \<lparr>Cpus = 4, Gpus = 1, Hdd = ''20GB'', Ram = ''8GB'', GpuMem = ''8GB''\<rparr> = (True, None)
   \<and> Fit (\<lambda>s. if s = ''1GB'' then (1000000000, False) else if s = ''8GB'' then (8000000000, False)
            else if s = ''20GB'' then (20000000000, False) else (0, True))
       \<lparr>Cpus = 2, Gpus = 1, Hdd = ''20GB'', Ram = ''1GB'', GpuMem = ''8GB''\<rparr>
       \<lparr>Cpus = 4, Gpus = 1, Hdd = ''1GB'', Ram = ''8GB'', GpuMem = ''8GB''\<rparr> = (False, None)"
  using Fit_componentwise
     [of "\<lambda>s. if s = ''1GB'' then (1000000000, False) else if s = ''8GB'' then (8000000000, False)
            else if s = ''20GB'' then (20000000000, False) else (0, True)"
       "\<lparr>Cpus = 2, Gpus = 1, Hdd = ''1GB'', Ram = ''1GB'', GpuMem = []\<rparr>"
       "\<lparr>Cpus = 4, Gpus = 1, Hdd = ''20GB'', Ram = ''8GB'', GpuMem = ''8GB''\<rparr>"]
    Fit_componentwise
     [of "\<lambda>s. if s = ''1GB'' then (1000000000, False) else if s = ''8GB'' then (8000000000, False)
            else if s = ''20GB'' then (20000000000, False) else (0, True)"
       "\<lparr>Cpus = 2, Gpus = 1, Hdd = ''20GB'', Ram = ''1GB'', GpuMem = ''8GB''\<rparr>"
       "\<lparr>Cpus = 4, Gpus = 1, Hdd = ''1GB'', Ram = ''8GB'', GpuMem = ''8GB''\<rparr>"]
  by simp

section \<open>Properties of the message handler\<close>

text \<open>
  Claim C2, as amended.  When \<open>newProcessor\<close> fails, as it does for a message that does
  not parse, the handler negatively acknowledges the message and cancels the receive; it
  sets no back-off and acknowledges nothing, so the broker is free to deliver the message
  again.
\<close>

theorem handler_nacks_unparsed:
  "handler request (Inl err) during w = w\<lparr>receipts := receipts w @ [Nack], cancelled := True\<rparr>"
  by (simp add: handler_def Let_def)

text \<open>
  Claim C2 as stated fails: for a message whose parse fails, with no back-off in place,
  the one receipt the handler issues is a negative acknowledgement.
\<close>

theorem handler_unparsed_not_acked:
  "receipts (handler \<lparr>rq_project = ''p'', rq_subscription = ''q1'', rq_creds = ''c.json''\<rparr>
       (Inl ''unexpected end of JSON input'') id
       \<lparr>backoffs = Map.empty, registry = Map.empty, receipts = [], cancelled = False\<rparr>) = [Nack]"
  by (simp add: handler_def Let_def fqName_def)

text \<open>
  Claim C7, as amended.  When \<open>Process\<close> returns without an error, for a message that
  was taken with no back-off in place, the handler acknowledges the message and does not
  cancel the receive.  It sets the back-off of the queue's key to one second only if an
  entry for that key is in the cache at that moment (one that appeared while \<open>Process\<close>
  ran); otherwise it installs none.
\<close>

theorem handler_success:
  assumes "backoffs w (fqName (rq_project request) (rq_subscription request)) = None"
    and "Process proc = (backoff, ack, None)"
  shows "receipts (handler request (Inr proc) during w) = receipts w @ [Ack]
    \<and> cancelled (handler request (Inr proc) during w) = cancelled w
    \<and> backoffs (handler request (Inr proc) during w) =
        (if during (backoffs w) (fqName (rq_project request) (rq_subscription request)) = None
         then during (backoffs w)
         else (during (backoffs w))(fqName (rq_project request) (rq_subscription request) \<mapsto> Second))"
  using assms by (simp add: handler_def Let_def)

text \<open>A one-minute entry that appears while \<open>Process\<close> runs is cut to one second.\<close>

theorem handler_success_witness:
  "receipts (handler \<lparr>rq_project = ''p'', rq_subscription = ''q1'', rq_creds = ''c.json''\<rparr>
       (Inr \<lparr>experiment_resource = \<lparr>Cpus = 1, Gpus = 0, Hdd = ''1GB'', Ram = ''1GB'', GpuMem = []\<rparr>,
             Process = (0, True, None)\<rparr>)
       (\<lambda>c. c(''p:q1'' \<mapsto> Minute))
       \<lparr>backoffs = Map.empty, registry = Map.empty, receipts = [], cancelled = False\<rparr>) = [Ack]
   \<and> backoffs (handler \<lparr>rq_project = ''p'', rq_subscription = ''q1'', rq_creds = ''c.json''\<rparr>
       (Inr \<lparr>experiment_resource = \<lparr>Cpus = 1, Gpus = 0, Hdd = ''1GB'', Ram = ''1GB'', GpuMem = []\<rparr>,
             Process = (0, True, None)\<rparr>)
       (\<lambda>c. c(''p:q1'' \<mapsto> Minute))
       \<lparr>backoffs = Map.empty, registry = Map.empty, receipts = [], cancelled = False\<rparr>) ''p:q1'' = Some Second"
  using handler_success
     [of "\<lparr>backoffs = Map.empty, registry = Map.empty, receipts = [], cancelled = False\<rparr>"
         "\<lparr>rq_project = ''p'', rq_subscription = ''q1'', rq_creds = ''c.json''\<rparr>"
         "\<lparr>experiment_resource = \<lparr>Cpus = 1, Gpus = 0, Hdd = ''1GB'', Ram = ''1GB'', GpuMem = []\<rparr>,
             Process = (0, True, None)\<rparr>" 0 True "\<lambda>c. c(''p:q1'' \<mapsto> Minute)"]
  by (simp add: fqName_def)

text \<open>
  Claim C7 as stated fails: \<open>Process\<close> succeeds, nothing else touches the cache, the
  message is acknowledged, and the cache holds no entry for the queue afterwards.
\<close>

theorem handler_success_installs_nothing:
  "receipts (handler \<lparr>rq_project = ''p'', rq_subscription = ''q1'', rq_creds = ''c.json''\<rparr>
       (Inr \<lparr>experiment_resource = \<lparr>Cpus = 1, Gpus = 0, Hdd = ''1GB'', Ram = ''1GB'', GpuMem = []\<rparr>,
             Process = (0, True, None)\<rparr>)
       id
       \<lparr>backoffs = Map.empty, registry = Map.empty, receipts = [], cancelled = False\<rparr>) = [Ack]
   \<and> backoffs (handler \<lparr>rq_project = ''p'', rq_subscription = ''q1'', rq_creds = ''c.json''\<rparr>
       (Inr \<lparr>experiment_resource = \<lparr>Cpus = 1, Gpus = 0, Hdd = ''1GB'', Ram = ''1GB'', GpuMem = []\<rparr>,
             Process = (0, True, None)\<rparr>)
       id
       \<lparr>backoffs = Map.empty, registry = Map.empty, receipts = [], cancelled = False\<rparr>) ''p:q1'' = None"
  by (simp add: handler_def Let_def fqName_def setResources_def)

section \<open>Properties of the producer\<close>

lemma shuffle_from_mset: "mset (shuffle_from draws i slc) = mset slc"
proof (induction draws i slc rule: shuffle_from.induct)
  case (1 draws i slc)
  show ?case
  proof (cases "i < length slc")
    case True
    define r where "r = i + (case draws of [] \<Rightarrow> 0 | d # _ \<Rightarrow> d mod (length slc - i))"
    have "r < length slc"
      using True by (auto simp: r_def split: list.splits)
        (metis True add.commute less_diff_conv mod_less_divisor zero_less_diff)
    then have "mset (slc[r := slc ! i, i := slc ! r]) = mset slc"
      using True by (simp add: mset_swap)
    moreover have "mset (shuffle_from (tl draws) (Suc i) (slc[r := slc ! i, i := slc ! r]))
        = mset (slc[r := slc ! i, i := slc ! r])"
      using "1.IH" [OF True r_def] .
    ultimately show ?thesis
      using True by (subst shuffle_from.simps) (simp add: r_def Let_def)
  next
    case False
    then show ?thesis
      by (subst shuffle_from.simps) simp
  qed
qed

lemma shuffle_set: "set (shuffle draws slc) = set slc"
  by (metis shuffle_def shuffle_from_mset set_mset_mset)

text \<open>
  Claim C6, as amended.  When a tick has an idle queue to probe and the first send finds
  no receiver, \<open>check\<close> returns its first-stage error before anything is sent, and the
  producer handles it as it handles every error of \<open>check\<close>: it sets a one-minute back-off
  for the candidate queue, one of the idle queues, and leaves the tick without being ready.
\<close>

theorem producer_backs_off_busy_consumer:
  assumes "idle_subs (qr_project qr) cache (rank visit qr) \<noteq> []"
    and "\<not> first_taken rQ"
  shows "\<exists>candidate \<in> set (idle_subs (qr_project qr) cache (rank visit qr)).
           producer_tick parseBytes machine rQ draws visit qr cache
             = (cache(fqName (qr_project qr) (name candidate) \<mapsto> Minute), [], False)"
proof -
  let ?idle = "idle_subs (qr_project qr) cache (rank visit qr)"
  from assms(1) obtain c rest where sh: "shuffle draws ?idle = c # rest"
    using shuffle_set [of draws ?idle] by (cases "shuffle draws ?idle") auto
  then have "c \<in> set ?idle"
    using shuffle_set [of draws ?idle] by (metis list.set_intros(1))
  moreover have "producer_tick parseBytes machine rQ draws visit qr cache
             = (cache(fqName (qr_project qr) (name c) \<mapsto> Minute), [], False)"
    using sh assms(2) by (simp add: producer_tick_def check_def Let_def)
  ultimately show ?thesis by blast
qed

text \<open>Two queues, one of them with work running: the idle one is backed off.\<close>

theorem producer_backs_off_busy_consumer_witness:
  "producer_tick (\<lambda>s. (0, True)) \<lparr>Cpus = 1, Gpus = 0, Hdd = ''1GB'', Ram = ''1GB'', GpuMem = []\<rparr>
      \<lparr>first_taken = False, second_taken = True\<rparr> [5] [''q2'', ''q1'']
      \<lparr>qr_project = ''p'', qr_cred = ''c.json'',
        qr_subs = [''q1'' \<mapsto> \<lparr>name = ''q1'', rsc = None, cnt = 0\<rparr>,
                   ''q2'' \<mapsto> \<lparr>name = ''q2'', rsc = None, cnt = 1\<rparr>]\<rparr>
      [''p:q3'' \<mapsto> Second]
    = ([''p:q3'' \<mapsto> Second, ''p:q1'' \<mapsto> Minute], [], False)"
  using producer_backs_off_busy_consumer
     [of "\<lparr>qr_project = ''p'', qr_cred = ''c.json'',
           qr_subs = [''q1'' \<mapsto> \<lparr>name = ''q1'', rsc = None, cnt = 0\<rparr>,
                      ''q2'' \<mapsto> \<lparr>name = ''q2'', rsc = None, cnt = 1\<rparr>]\<rparr>"
         "[''p:q3'' \<mapsto> Second]" "[''q2'', ''q1'']"
         "\<lparr>first_taken = False, second_taken = True\<rparr>"
         "\<lambda>s. (0, True)" "\<lparr>Cpus = 1, Gpus = 0, Hdd = ''1GB'', Ram = ''1GB'', GpuMem = []\<rparr>" "[5]"]
  by (simp add: rank_def idle_subs_def fqName_def)

text \<open>
  Claim C6 as stated fails: one idle queue, no back-off in place, no receiver at the
  first send; after the tick the cache holds a one-minute entry for the queue.
\<close>

theorem producer_installs_backoff:
  "producer_tick (\<lambda>s. (0, True)) \<lparr>Cpus = 1, Gpus = 0, Hdd = ''1GB'', Ram = ''1GB'', GpuMem = []\<rparr>
      \<lparr>first_taken = False, second_taken = False\<rparr> [] [''q1'']
      \<lparr>qr_project = ''p'', qr_cred = ''c.json'',
        qr_subs = [''q1'' \<mapsto> \<lparr>name = ''q1'', rsc = None, cnt = 0\<rparr>]\<rparr> Map.empty
    = ([''p:q1'' \<mapsto> Minute], [], False)"
  by (simp add: producer_tick_def rank_def idle_subs_def fqName_def
       shuffle_def shuffle_from.simps check_def Let_def)

section \<open>Properties of the request encoding\<close>

lemma store_append: "(\<forall>k' \<in> fst ` set kvs. k' < k) \<Longrightarrow> store k v kvs = kvs @ [(k, v)]"
  by (induction kvs) auto

lemma field_index_exact:
  "distinct (map fst (pre @ (tag, om, t) # fs)) \<Longrightarrow>
   field_index (\<lambda>x. x = tag) (pre @ (tag, om, t) # fs) = Some (length pre)"
  by (induction pre) auto

lemma find_field_exact:
  "distinct (map fst (pre @ (tag, om, t) # fs)) \<Longrightarrow>
   find_field (pre @ (tag, om, t) # fs) tag = Some (length pre)"
  by (simp add: find_field_def field_index_exact)

lemma zero_fields_length: "length (zeroFields sc fs) = length fs"
  by (induction fs) auto

lemma struct_fields_zero: "struct_fields sc fs (GStruct (zeroFields sc fs)) = zeroFields sc fs"
  by (simp add: struct_fields_def zero_fields_length)

lemma struct_fields_length: "length (struct_fields sc fs cur) = length fs"
  by (cases cur) (simp_all add: struct_fields_def zero_fields_length)

lemma encode_list_length: "encode_list sc t vs = Inr js \<Longrightarrow> length js = length vs"
  by (induction vs arbitrary: js) (auto split: sum.splits)

lemma list_roundtrip:
  assumes "\<And>x j. x \<in> set vs \<Longrightarrow> valid sc t x \<Longrightarrow> encode sc t x = Inr j \<Longrightarrow>
             decode sc t j (zeroValue sc t) = Inr x"
  shows "valid_list sc t vs \<Longrightarrow> encode_list sc t vs = Inr js \<Longrightarrow> decode_list sc t js [] = Inr vs"
  using assms
proof (induction vs arbitrary: js)
  case Nil
  then show ?case by simp
next
  case (Cons v vs)
  from Cons.prems(2) obtain j js' where
    j: "encode sc t v = Inr j" and js': "encode_list sc t vs = Inr js'" and js: "js = j # js'"
    by (auto split: sum.splits)
  have dv: "decode sc t j (zeroValue sc t) = Inr v"
    using Cons.prems(3) [of v j] Cons.prems(1) j by simp
  have "decode_list sc t js' [] = Inr vs"
    using Cons.IH [of js'] Cons.prems(1) js' Cons.prems(3) by simp
  then show ?case
    using dv js by simp
qed

lemma entries_roundtrip:
  assumes "\<And>k x j. (k, x) \<in> set kvs \<Longrightarrow> valid sc t x \<Longrightarrow> encode sc t x = Inr j \<Longrightarrow>
             decode sc t j (zeroValue sc t) = Inr x"
  shows "valid_entries sc t kvs \<Longrightarrow> encode_entries sc t kvs = Inr ms \<Longrightarrow>
         (\<forall>k' \<in> fst ` set acc. \<forall>k \<in> fst ` set kvs. k' < k) \<Longrightarrow>
         decode_entries sc t ms acc = Inr (acc @ kvs)"
  using assms
proof (induction kvs arbitrary: ms acc)
  case Nil
  then show ?case by simp
next
  case (Cons kv kvs)
  obtain k v where kv: "kv = (k, v)" by (cases kv)
  from Cons.prems(2) kv obtain j ms' where
    j: "encode sc t v = Inr j" and ms': "encode_entries sc t kvs = Inr ms'"
    and ms: "ms = (ToValidUTF8 sc k, j) # ms'"
    by (auto split: sum.splits)
  from Cons.prems(1) kv have utf: "ToValidUTF8 sc k = k" and above: "\<forall>k' \<in> fst ` set kvs. k < k'"
    and wv: "valid sc t v" and wr: "valid_entries sc t kvs"
    by simp_all
  have dv: "decode sc t j (zeroValue sc t) = Inr v"
    using Cons.prems(4) [of k v j] kv wv j by simp
  have below: "\<forall>k' \<in> fst ` set acc. k' < k"
    using Cons.prems(3) kv by simp
  have st: "store k v acc = acc @ [(k, v)]"
    using below by (rule store_append)
  have sep: "\<forall>k' \<in> fst ` set (acc @ [(k, v)]). \<forall>k'' \<in> fst ` set kvs. k' < k''"
    using Cons.prems(3) kv above by auto
  have "\<And>k x j. (k, x) \<in> set kvs \<Longrightarrow> valid sc t x \<Longrightarrow> encode sc t x = Inr j \<Longrightarrow>
          decode sc t j (zeroValue sc t) = Inr x"
    using Cons.prems(4) by (meson list.set_intros(2))
  then have "decode_entries sc t ms' (acc @ [(k, v)]) = Inr ((acc @ [(k, v)]) @ kvs)"
    using Cons.IH [of ms' "acc @ [(k, v)]"] wr ms' sep by blast
  then show ?case
    using dv ms utf kv st by simp
qed

lemma members_roundtrip:
  assumes "\<And>x t j. x \<in> set vs \<Longrightarrow> wf_ty t \<Longrightarrow> valid sc t x \<Longrightarrow> encode sc t x = Inr j \<Longrightarrow>
             decode sc t j (zeroValue sc t) = Inr x"
  shows "distinct (map fst (pre @ fs)) \<Longrightarrow> wf_fields fs \<Longrightarrow> valid_fields sc fs vs \<Longrightarrow>
         encode_fields sc fs vs = Inr ms \<Longrightarrow> length vpre = length pre \<Longrightarrow>
         decode_members sc (pre @ fs) ms (vpre @ zeroFields sc fs) = Inr (vpre @ vs)"
  using assms
proof (induction fs arbitrary: vs pre vpre ms)
  case Nil
  then show ?case by (cases vs) auto
next
  case (Cons f fs)
  obtain tag omitempty t where f: "f = (tag, omitempty, t)"
    by (cases f)
  from Cons.prems(3) f obtain v vs' where vs: "vs = v # vs'"
    by (cases vs) auto
  let ?pre = "pre @ [(tag, omitempty, t)]"
  have dist: "distinct (map fst (?pre @ fs))"
    using Cons.prems(1) f by simp
  have wf: "wf_ty t" "wf_fields fs"
    using Cons.prems(2) f by simp_all
  have wts: "valid sc t v" "valid_fields sc fs vs'"
    using Cons.prems(3) f vs by simp_all
  have ih: "\<And>ms' x. encode_fields sc fs vs' = Inr ms' \<Longrightarrow>
      decode_members sc (?pre @ fs) ms' ((vpre @ [x]) @ zeroFields sc fs) = Inr ((vpre @ [x]) @ vs')"
    using Cons.IH [of ?pre vs' _ "vpre @ [x]" for x] dist wf(2) wts(2) Cons.prems(5) Cons.prems(6) vs
    by simp
  show ?case
  proof (cases "omitempty \<and> isEmptyValue sc t v")
    case True
    then have e: "encode_fields sc fs vs' = Inr ms"
      using Cons.prems(4) f vs by simp
    have z: "v = zeroValue sc t"
      using True Cons.prems(3) f vs by simp
    from ih [OF e, of v] show ?thesis
      using f vs z by simp
  next
    case False
    with Cons.prems(4) f vs obtain j ms' where
      j: "encode sc t v = Inr j" and ms': "encode_fields sc fs vs' = Inr ms'" and ms: "ms = (tag, j) # ms'"
      by (auto split: sum.splits)
    have dv: "decode sc t j (zeroValue sc t) = Inr v"
      using Cons.prems(6) [of v t j] wf(1) wts(1) j vs by simp
    have ff: "find_field (pre @ (tag, omitempty, t) # fs) tag = Some (length pre)"
      using Cons.prems(1) f by (intro find_field_exact) simp
    have nth: "(pre @ (tag, omitempty, t) # fs) ! length pre = (tag, omitempty, t)"
      by simp
    have cur: "(vpre @ zeroValue sc t # zeroFields sc fs) ! length pre = zeroValue sc t"
      using Cons.prems(5) by (simp add: nth_append)
    have upd: "(vpre @ zeroValue sc t # zeroFields sc fs)[length pre := v] = vpre @ v # zeroFields sc fs"
      using Cons.prems(5) by (simp add: list_update_append)
    have rest: "decode_members sc (pre @ (tag, omitempty, t) # fs) ms' (vpre @ v # zeroFields sc fs) =
        Inr (vpre @ v # vs')"
      using ih [OF ms', of v] by simp
    show ?thesis
      using ms ff nth cur upd dv rest f vs by simp
  qed
qed

text \<open>
  A valid value of any well-formed type, once encoded, decodes to itself.
\<close>

lemma roundtrip:
  assumes "strconv_ok sc"
  shows "wf_ty t \<Longrightarrow> valid sc t v \<Longrightarrow> encode sc t v = Inr j \<Longrightarrow> decode sc t j (zeroValue sc t) = Inr v"
proof (induction v arbitrary: t j)
  case GNil
  then show ?case by (cases t) auto
next
  case (GBool b)
  then show ?case by (cases t) auto
next
  case (GString s)
  then show ?case by (cases t) auto
next
  case (GUint u)
  then show ?case using assms by (cases t) (auto simp: strconv_ok_def)
next
  case (GInt64 i)
  then show ?case using assms by (cases t) (auto simp: strconv_ok_def)
next
  case (GFloat64 f)
  then show ?case using assms by (cases t) (auto simp: strconv_ok_def split: option.splits)
next
  case (GSlice vs spare)
  have ih: "\<And>t x j. x \<in> set vs \<Longrightarrow> wf_ty t \<Longrightarrow> valid sc t x \<Longrightarrow> encode sc t x = Inr j \<Longrightarrow>
              decode sc t j (zeroValue sc t) = Inr x"
    using GSlice.IH(1) by blast
  show ?case
  proof (cases t)
    case TInterface
    with GSlice.prems obtain js where js: "encode_list sc TInterface vs = Inr js" and j: "j = JArray js"
      and spare: "spare = []"
      by (auto split: sum.splits)
    have "decode_list sc TInterface js [] = Inr vs"
      using GSlice.prems TInterface js
      by (intro list_roundtrip [of vs sc TInterface js]) (use ih [of _ TInterface] in auto)
    then show ?thesis using j TInterface spare by simp
  next
    case (TSlice elem)
    with GSlice.prems obtain js where js: "encode_list sc elem vs = Inr js" and j: "j = JArray js"
      and spare: "spare = []"
      by (auto split: sum.splits)
    have d: "decode_list sc elem js [] = Inr vs"
      using GSlice.prems TSlice js
      by (intro list_roundtrip [of vs sc elem js]) (use ih [of _ elem] in auto)
    have "js = [] \<Longrightarrow> vs = []"
      using encode_list_length [OF js] by simp
    then show ?thesis using j TSlice spare d by auto
  qed (use GSlice.prems in auto)
next
  case (GMap kvs)
  have ih: "\<And>t k x j. (k, x) \<in> set kvs \<Longrightarrow> wf_ty t \<Longrightarrow> valid sc t x \<Longrightarrow> encode sc t x = Inr j \<Longrightarrow>
              decode sc t j (zeroValue sc t) = Inr x"
    using GMap.IH by fastforce
  show ?case
  proof (cases t)
    case TInterface
    with GMap.prems obtain ms where ms: "encode_entries sc TInterface kvs = Inr ms" and j: "j = JObject ms"
      by (auto split: sum.splits)
    have "decode_entries sc TInterface ms [] = Inr ([] @ kvs)"
      using GMap.prems TInterface ms
      by (intro entries_roundtrip [of kvs sc TInterface ms "[]"]) (use ih [of _ _ TInterface] in auto)
    then show ?thesis using j TInterface by simp
  next
    case (TMap elem)
    with GMap.prems obtain ms where ms: "encode_entries sc elem kvs = Inr ms" and j: "j = JObject ms"
      by (auto split: sum.splits)
    have "decode_entries sc elem ms [] = Inr ([] @ kvs)"
      using GMap.prems TMap ms
      by (intro entries_roundtrip [of kvs sc elem ms "[]"]) (use ih [of _ _ elem] in auto)
    then show ?thesis using j TMap by simp
  qed (use GMap.prems in auto)
next
  case (GStruct vs)
  have ih: "\<And>t x j. x \<in> set vs \<Longrightarrow> wf_ty t \<Longrightarrow> valid sc t x \<Longrightarrow> encode sc t x = Inr j \<Longrightarrow>
              decode sc t j (zeroValue sc t) = Inr x"
    using GStruct.IH by blast
  show ?case
  proof (cases t)
    case (TStruct fs)
    with GStruct.prems obtain ms where ms: "encode_fields sc fs vs = Inr ms" and j: "j = JObject ms"
      by (auto split: sum.splits)
    have "decode_members sc ([] @ fs) ms ([] @ zeroFields sc fs) = Inr ([] @ vs)"
      using GStruct.prems TStruct ms
      by (intro members_roundtrip [of vs sc "[]" fs ms "[]"]) (use ih in auto)
    then show ?thesis
      using j TStruct by (simp add: struct_fields_zero)
  qed (use GStruct.prems in auto)
qed

lemma wf_Request_ty: "wf_ty Request_ty"
  by (simp add: Request_ty_def Config_ty_def Experiment_ty_def Database_ty_def Resource_ty_def
      RunnerCustom_ty_def Info_ty_def Artifact_ty_def)

lemma strconv_ok_whole_numbers: "strconv_ok whole_numbers"
proof -
  have "0 \<le> uint u \<and> uint u < 2 ^ 64" for u :: "64 word"
    using uint_lt2p [of u] by simp
  moreover have "- (2 ^ 63) \<le> sint i \<and> sint i < 2 ^ 63" for i :: "64 word"
    using sint_ge [of i] sint_lt [of i] by simp
  ultimately show ?thesis
    by (simp add: strconv_ok_def whole_numbers_def)
qed

lemma encode_list_total:
  assumes "\<And>x. x \<in> set vs \<Longrightarrow> valid sc t x \<Longrightarrow> \<exists>j. encode sc t x = Inr j"
  shows "valid_list sc t vs \<Longrightarrow> \<exists>js. encode_list sc t vs = Inr js"
  using assms
proof (induction vs)
  case Nil
  then show ?case by simp
next
  case (Cons v vs)
  then obtain j where "encode sc t v = Inr j"
    by (meson list.set_intros(1) valid_list.simps(2))
  moreover obtain js where "encode_list sc t vs = Inr js"
    using Cons by (meson list.set_intros(2) valid_list.simps(2))
  ultimately show ?case by simp
qed

lemma encode_entries_total:
  assumes "\<And>k x. (k, x) \<in> set kvs \<Longrightarrow> valid sc t x \<Longrightarrow> \<exists>j. encode sc t x = Inr j"
  shows "valid_entries sc t kvs \<Longrightarrow> \<exists>ms. encode_entries sc t kvs = Inr ms"
  using assms
proof (induction kvs)
  case Nil
  then show ?case by simp
next
  case (Cons kv kvs)
  obtain k v where kv: "kv = (k, v)" by (cases kv)
  from Cons.prems kv obtain j where "encode sc t v = Inr j"
    by (metis list.set_intros(1) valid_entries.simps(2))
  moreover obtain ms where "encode_entries sc t kvs = Inr ms"
    using Cons kv by (metis list.set_intros(2) valid_entries.simps(2))
  ultimately show ?case using kv by simp
qed

lemma encode_fields_total:
  assumes "\<And>x t. x \<in> set vs \<Longrightarrow> valid sc t x \<Longrightarrow> \<exists>j. encode sc t x = Inr j"
  shows "valid_fields sc fs vs \<Longrightarrow> \<exists>ms. encode_fields sc fs vs = Inr ms"
  using assms
proof (induction fs arbitrary: vs)
  case Nil
  then show ?case by (cases vs) auto
next
  case (Cons f fs)
  obtain tag omitempty t where f: "f = (tag, omitempty, t)"
    by (cases f)
  from Cons.prems(1) f obtain v vs' where vs: "vs = v # vs'"
    by (cases vs) auto
  have "valid sc t v" and w: "valid_fields sc fs vs'"
    using Cons.prems(1) f vs by simp_all
  then obtain j where "encode sc t v = Inr j"
    using Cons.prems(2) [of v t] vs by auto
  moreover obtain ms where "encode_fields sc fs vs' = Inr ms"
    using Cons.IH [OF w] Cons.prems(2) vs by (meson list.set_intros(2))
  ultimately show ?case using f vs by simp
qed

lemma encode_total: "valid sc t v \<Longrightarrow> \<exists>j. encode sc t v = Inr j"
proof (induction v arbitrary: t)
  case GNil
  then show ?case by (cases t) auto
next
  case (GBool b)
  then show ?case by (cases t) auto
next
  case (GString s)
  then show ?case by (cases t) auto
next
  case (GUint u)
  then show ?case by (cases t) auto
next
  case (GInt64 i)
  then show ?case by (cases t) auto
next
  case (GFloat64 f)
  then show ?case by (cases t) auto
next
  case (GSlice vs spare)
  have ih: "\<And>t x. x \<in> set vs \<Longrightarrow> valid sc t x \<Longrightarrow> \<exists>j. encode sc t x = Inr j"
    using GSlice.IH(1) by blast
  show ?case
  proof (cases t)
    case TInterface
    then obtain js where "encode_list sc TInterface vs = Inr js"
      using encode_list_total [of vs sc TInterface] ih GSlice.prems by auto
    with TInterface show ?thesis by simp
  next
    case (TSlice elem)
    then obtain js where "encode_list sc elem vs = Inr js"
      using encode_list_total [of vs sc elem] ih GSlice.prems by auto
    with TSlice show ?thesis by simp
  qed (use GSlice.prems in auto)
next
  case (GMap kvs)
  have ih: "\<And>t k x. (k, x) \<in> set kvs \<Longrightarrow> valid sc t x \<Longrightarrow> \<exists>j. encode sc t x = Inr j"
    using GMap.IH by fastforce
  show ?case
  proof (cases t)
    case TInterface
    then obtain ms where "encode_entries sc TInterface kvs = Inr ms"
      using encode_entries_total [of kvs sc TInterface] ih GMap.prems by auto
    with TInterface show ?thesis by simp
  next
    case (TMap elem)
    then obtain ms where "encode_entries sc elem kvs = Inr ms"
      using encode_entries_total [of kvs sc elem] ih GMap.prems by auto
    with TMap show ?thesis by simp
  qed (use GMap.prems in auto)
next
  case (GStruct vs)
  have ih: "\<And>t x. x \<in> set vs \<Longrightarrow> valid sc t x \<Longrightarrow> \<exists>j. encode sc t x = Inr j"
    using GStruct.IH by blast
  show ?case
  proof (cases t)
    case (TStruct fs)
    then obtain ms where "encode_fields sc fs vs = Inr ms"
      using encode_fields_total [of vs sc fs] ih GStruct.prems by auto
    with TStruct show ?thesis by simp
  qed (use GStruct.prems in auto)
qed


lemma decode_members_length: "decode_members sc fs ms vs = Inr vs' \<Longrightarrow> length vs' = length vs"
proof (induction ms arbitrary: vs)
  case Nil
  then show ?case by simp
next
  case (Cons m ms)
  obtain k j where m: "m = (k, j)" by (cases m)
  show ?case
  proof (cases "find_field fs k")
    case None
    with Cons m show ?thesis by simp
  next
    case (Some i)
    with Cons.prems m obtain v where "decode_members sc fs ms (vs[i := v]) = Inr vs'"
      by (auto split: sum.splits)
    from Cons.IH [OF this] show ?thesis by simp
  qed
qed

lemma decode_struct_shape:
  "decode sc (TStruct fs) data (GStruct vs) = Inr r \<Longrightarrow> length vs = length fs \<Longrightarrow>
   \<exists>vs'. r = GStruct vs' \<and> length vs' = length fs"
  by (cases data)
     (auto simp: struct_fields_def dest: decode_members_length split: sum.splits)

lemma reserialize_keys:
  assumes "UnmarshalRequest sc data = Inr r" and "Marshal sc r = Inr data'"
  shows "object_keys data' = [''config'', ''experiment'']"
proof -
  let ?fs = "[(''config'', False, Config_ty), (''experiment'', False, Experiment_ty)]"
  have "decode sc (TStruct ?fs) data (GStruct (zeroFields sc ?fs)) = Inr r"
    using assms(1) by (simp add: UnmarshalRequest_def Request_ty_def)
  then obtain vs where r: "r = GStruct vs" and "length vs = length ?fs"
    using decode_struct_shape [of sc ?fs data "zeroFields sc ?fs" r] zero_fields_length [of sc ?fs]
    by auto
  then obtain c e where "vs = [c, e]"
    by (cases vs; cases "tl vs") auto
  with assms(2) r show ?thesis
    by (auto simp: Marshal_def Request_ty_def split: sum.splits)
qed

subsection \<open>Members that select no field\<close>

lemma strip_list_length: "length (strip_list t js) = length js"
  by (induction js) auto

lemma decode_list_strip:
  assumes "\<And>j t cur. j \<in> set js \<Longrightarrow> decode sc t (strip t j) cur = decode sc t j cur"
  shows "decode_list sc t (strip_list t js) array = decode_list sc t js array"
  using assms by (induction js arbitrary: array) (auto split: sum.splits)

lemma decode_entries_strip:
  assumes "\<And>k j t cur. (k, j) \<in> set ms \<Longrightarrow> decode sc t (strip t j) cur = decode sc t j cur"
  shows "decode_entries sc t (strip_entries t ms) kvs = decode_entries sc t ms kvs"
  using assms
proof (induction ms arbitrary: kvs)
  case Nil
  then show ?case by simp
next
  case (Cons m ms)
  obtain k j where m: "m = (k, j)" by (cases m)
  have "decode sc t (strip t j) (zeroValue sc t) = decode sc t j (zeroValue sc t)"
    using Cons.prems [of k j] m by simp
  moreover have "decode_entries sc t (strip_entries t ms) kvs' = decode_entries sc t ms kvs'" for kvs'
    using Cons.IH Cons.prems by (meson list.set_intros(2))
  ultimately show ?case
    using m by (simp split: sum.splits)
qed

lemma decode_members_strip:
  assumes "\<And>k j t cur. (k, j) \<in> set ms \<Longrightarrow> decode sc t (strip t j) cur = decode sc t j cur"
  shows "decode_members sc fs (strip_members fs ms) vs = decode_members sc fs ms vs"
  using assms
proof (induction ms arbitrary: vs)
  case Nil
  then show ?case by simp
next
  case (Cons m ms)
  obtain k j where m: "m = (k, j)" by (cases m)
  have head: "decode sc t (strip t j) cur = decode sc t j cur" for t cur
    using Cons.prems [of k j] m by simp
  have rest: "decode_members sc fs (strip_members fs ms) vs' = decode_members sc fs ms vs'" for vs'
    using Cons.IH Cons.prems by (meson list.set_intros(2))
  show ?case
  proof (cases "find_field fs k")
    case None
    then show ?thesis using m rest by simp
  next
    case (Some i)
    then show ?thesis using m rest head by (simp split: sum.splits)
  qed
qed

text \<open>
  The decoder skips every member that selects no field: a message and the message
  without those members decode alike, into whatever value.
\<close>

lemma decode_strip: "decode sc t (strip t j) cur = decode sc t j cur"
proof (induction j arbitrary: t cur)
  case (JArray js)
  have "decode_list sc elem (strip_list elem js) array = decode_list sc elem js array" for elem array
    using JArray.IH by (intro decode_list_strip) blast
  moreover have "strip_list elem js = [] \<longleftrightarrow> js = []" for elem
    using strip_list_length [of elem js] by (metis length_0_conv)
  ultimately show ?case
    by (cases t) (simp_all add: strip_list_length split: sum.splits)
next
  case (JObject ms)
  have ih: "\<And>k j t cur. (k, j) \<in> set ms \<Longrightarrow> decode sc t (strip t j) cur = decode sc t j cur"
    using JObject.IH by fastforce
  have "decode_entries sc elem (strip_entries elem ms) kvs = decode_entries sc elem ms kvs" for elem kvs
    using ih by (intro decode_entries_strip) blast
  moreover have "decode_members sc fs (strip_members fs ms) vs = decode_members sc fs ms vs" for fs vs
    using ih by (intro decode_members_strip) blast
  ultimately show ?case
    by (cases t) simp_all
qed simp_all

lemma known_list_strip:
  assumes "\<And>j t. j \<in> set js \<Longrightarrow> known t (strip t j)"
  shows "known_list t (strip_list t js)"
  using assms by (induction js) auto

lemma known_entries_strip:
  assumes "\<And>k j t. (k, j) \<in> set ms \<Longrightarrow> known t (strip t j)"
  shows "known_entries t (strip_entries t ms)"
  using assms
proof (induction ms)
  case Nil
  then show ?case by simp
next
  case (Cons m ms)
  obtain k j where m: "m = (k, j)" by (cases m)
  have "known t (strip t j)"
    using Cons.prems [of k j] m by simp
  moreover have "known_entries t (strip_entries t ms)"
    using Cons.IH Cons.prems by (meson list.set_intros(2))
  ultimately show ?case
    using m by simp
qed

lemma known_members_strip:
  assumes "\<And>k j t. (k, j) \<in> set ms \<Longrightarrow> known t (strip t j)"
  shows "known_members fs (strip_members fs ms)"
  using assms
proof (induction ms)
  case Nil
  then show ?case by simp
next
  case (Cons m ms)
  obtain k j where m: "m = (k, j)" by (cases m)
  have "known t (strip t j)" for t
    using Cons.prems [of k j] m by simp
  moreover have "known_members fs (strip_members fs ms)"
    using Cons.IH Cons.prems by (meson list.set_intros(2))
  ultimately show ?case
    using m by (cases "find_field fs k") simp_all
qed

text \<open>What \<open>strip\<close> leaves has, in every object decoded into a struct, only members that select a field.\<close>

lemma known_strip: "known t (strip t j)"
proof (induction j arbitrary: t)
  case (JArray js)
  have "known_list elem (strip_list elem js)" for elem
    using JArray.IH by (intro known_list_strip) blast
  then show ?case
    by (cases t) simp_all
next
  case (JObject ms)
  have ih: "\<And>k j t. (k, j) \<in> set ms \<Longrightarrow> known t (strip t j)"
    using JObject.IH by fastforce
  have "known_entries elem (strip_entries elem ms)" for elem
    using ih by (intro known_entries_strip) blast
  moreover have "known_members fs (strip_members fs ms)" for fs
    using ih by (intro known_members_strip) blast
  ultimately show ?case
    by (cases t) simp_all
qed simp_all

lemma strip_list_known:
  assumes "\<And>j t. j \<in> set js \<Longrightarrow> known t j \<Longrightarrow> strip t j = j"
  shows "known_list t js \<Longrightarrow> strip_list t js = js"
  using assms by (induction js) auto

lemma strip_entries_known:
  assumes "\<And>k j t. (k, j) \<in> set ms \<Longrightarrow> known t j \<Longrightarrow> strip t j = j"
  shows "known_entries t ms \<Longrightarrow> strip_entries t ms = ms"
  using assms
proof (induction ms)
  case Nil
  then show ?case by simp
next
  case (Cons m ms)
  obtain k j where m: "m = (k, j)" by (cases m)
  from Cons.prems(1) m have kj: "known t j" and kr: "known_entries t ms"
    by simp_all
  have "strip t j = j"
    using Cons.prems(2) [of k j] m kj by simp
  moreover have "strip_entries t ms = ms"
    using Cons.IH kr Cons.prems(2) by (meson list.set_intros(2))
  ultimately show ?case
    using m by simp
qed

lemma strip_members_known:
  assumes "\<And>k j t. (k, j) \<in> set ms \<Longrightarrow> known t j \<Longrightarrow> strip t j = j"
  shows "known_members fs ms \<Longrightarrow> strip_members fs ms = ms"
  using assms
proof (induction ms)
  case Nil
  then show ?case by simp
next
  case (Cons m ms)
  obtain k j where m: "m = (k, j)" by (cases m)
  from Cons.prems(1) m obtain i where i: "find_field fs k = Some i"
    and kj: "known (snd (snd (fs ! i))) j" and kr: "known_members fs ms"
    by (auto split: option.splits)
  have "strip (snd (snd (fs ! i))) j = j"
    using Cons.prems(2) [of k j] m kj by simp
  moreover have "strip_members fs ms = ms"
    using Cons.IH kr Cons.prems(2) by (meson list.set_intros(2))
  ultimately show ?case
    using m i by simp
qed

text \<open>\<open>strip\<close> takes nothing else away: a message with no such member is left as it is.\<close>

lemma strip_known: "known t j \<Longrightarrow> strip t j = j"
proof (induction j arbitrary: t)
  case (JArray js)
  have "known_list elem js \<Longrightarrow> strip_list elem js = js" for elem
    using JArray.IH by (intro strip_list_known) blast+
  then show ?case
    using JArray.prems by (cases t) simp_all
next
  case (JObject ms)
  have ih: "\<And>k j t. (k, j) \<in> set ms \<Longrightarrow> known t j \<Longrightarrow> strip t j = j"
    using JObject.IH by fastforce
  have "known_entries elem ms \<Longrightarrow> strip_entries elem ms = ms" for elem
    using ih by (intro strip_entries_known) blast+
  moreover have "known_members fs ms \<Longrightarrow> strip_members fs ms = ms" for fs
    using ih by (intro strip_members_known) blast+
  ultimately show ?case
    using JObject.prems by (cases t) simp_all
qed simp_all

lemma known_interface: "known TInterface j"
  by (cases j) simp_all

lemma encode_list_known:
  assumes "\<And>x j. x \<in> set vs \<Longrightarrow> encode sc t x = Inr j \<Longrightarrow> known t j"
  shows "encode_list sc t vs = Inr js \<Longrightarrow> known_list t js"
  using assms
proof (induction vs arbitrary: js)
  case Nil
  then show ?case by simp
next
  case (Cons v vs)
  from Cons.prems(1) obtain j js' where
    j: "encode sc t v = Inr j" and js': "encode_list sc t vs = Inr js'" and js: "js = j # js'"
    by (auto split: sum.splits)
  have "known t j"
    using Cons.prems(2) [of v j] j by simp
  moreover have "known_list t js'"
    using Cons.IH [OF js'] Cons.prems(2) by (meson list.set_intros(2))
  ultimately show ?case
    using js by simp
qed

lemma encode_entries_known:
  assumes "\<And>k x j. (k, x) \<in> set kvs \<Longrightarrow> encode sc t x = Inr j \<Longrightarrow> known t j"
  shows "encode_entries sc t kvs = Inr ms \<Longrightarrow> known_entries t ms"
  using assms
proof (induction kvs arbitrary: ms)
  case Nil
  then show ?case by simp
next
  case (Cons kv kvs)
  obtain k v where kv: "kv = (k, v)" by (cases kv)
  from Cons.prems(1) kv obtain j ms' where
    j: "encode sc t v = Inr j" and ms': "encode_entries sc t kvs = Inr ms'"
    and ms: "ms = (ToValidUTF8 sc k, j) # ms'"
    by (auto split: sum.splits)
  have "known t j"
    using Cons.prems(2) [of k v j] j kv by simp
  moreover have "known_entries t ms'"
    using Cons.IH [OF ms'] Cons.prems(2) by (meson list.set_intros(2))
  ultimately show ?case
    using ms by simp
qed

lemma encode_fields_known:
  assumes "\<And>x t j. x \<in> set vs \<Longrightarrow> wf_ty t \<Longrightarrow> encode sc t x = Inr j \<Longrightarrow> known t j"
  shows "distinct (map fst (pre @ fs)) \<Longrightarrow> wf_fields fs \<Longrightarrow> encode_fields sc fs vs = Inr ms \<Longrightarrow>
         known_members (pre @ fs) ms"
  using assms
proof (induction fs arbitrary: vs pre ms)
  case Nil
  then show ?case by (cases vs) auto
next
  case (Cons f fs)
  obtain tag omitempty t where f: "f = (tag, omitempty, t)"
    by (cases f)
  from Cons.prems(3) f obtain v vs' where vs: "vs = v # vs'"
    by (cases vs) auto
  let ?pre = "pre @ [(tag, omitempty, t)]"
  have dist: "distinct (map fst (?pre @ fs))"
    using Cons.prems(1) f by simp
  have wf: "wf_ty t" "wf_fields fs"
    using Cons.prems(2) f by simp_all
  have sub: "\<And>x t j. x \<in> set vs' \<Longrightarrow> wf_ty t \<Longrightarrow> encode sc t x = Inr j \<Longrightarrow> known t j"
    using Cons.prems(4) vs by (meson list.set_intros(2))
  have ih: "known_members (?pre @ fs) ms'" if "encode_fields sc fs vs' = Inr ms'" for ms'
    by (intro Cons.IH [of ?pre vs' ms']) (use dist wf(2) that sub in auto)
  show ?case
  proof (cases "omitempty \<and> isEmptyValue sc t v")
    case True
    then have "encode_fields sc fs vs' = Inr ms"
      using Cons.prems(3) f vs by simp
    from ih [OF this] show ?thesis
      using f by simp
  next
    case False
    with Cons.prems(3) f vs obtain j ms' where
      j: "encode sc t v = Inr j" and ms': "encode_fields sc fs vs' = Inr ms'" and ms: "ms = (tag, j) # ms'"
      by (auto split: sum.splits)
    have kj: "known t j"
      using Cons.prems(4) [of v t j] wf(1) j vs by simp
    have ff: "find_field (pre @ (tag, omitempty, t) # fs) tag = Some (length pre)"
      using Cons.prems(1) f by (intro find_field_exact) simp
    have nth: "(pre @ (tag, omitempty, t) # fs) ! length pre = (tag, omitempty, t)"
      by simp
    have rest: "known_members (pre @ (tag, omitempty, t) # fs) ms'"
      using ih [OF ms'] by simp
    show ?thesis
      using ms ff nth kj rest f by simp
  qed
qed

text \<open>
  What the encoder writes has, in every object written from a struct, only members that
  select a field of that struct.
\<close>

lemma encode_known: "wf_ty t \<Longrightarrow> encode sc t v = Inr j \<Longrightarrow> known t j"
proof (induction v arbitrary: t j)
  case GNil
  then show ?case by (cases t) auto
next
  case (GBool b)
  then show ?case by (cases t) auto
next
  case (GString s)
  then show ?case by (cases t) auto
next
  case (GUint u)
  then show ?case by (cases t) auto
next
  case (GInt64 i)
  then show ?case by (cases t) auto
next
  case (GFloat64 f)
  then show ?case by (cases t) (auto split: option.splits)
next
  case (GSlice vs spare)
  show ?case
  proof (cases t)
    case TInterface
    then show ?thesis by (simp add: known_interface)
  next
    case (TSlice elem)
    with GSlice.prems obtain js where js: "encode_list sc elem vs = Inr js" and j: "j = JArray js"
      by (auto split: sum.splits)
    have "known_list elem js"
      using GSlice.prems(1) TSlice js
      by (intro encode_list_known [of vs sc elem js]) (use GSlice.IH(1) in auto)
    then show ?thesis using j TSlice by simp
  qed (use GSlice.prems in auto)
next
  case (GMap kvs)
  have ih: "\<And>t k x j. (k, x) \<in> set kvs \<Longrightarrow> wf_ty t \<Longrightarrow> encode sc t x = Inr j \<Longrightarrow> known t j"
    using GMap.IH by fastforce
  show ?case
  proof (cases t)
    case TInterface
    then show ?thesis by (simp add: known_interface)
  next
    case (TMap elem)
    with GMap.prems obtain ms where ms: "encode_entries sc elem kvs = Inr ms" and j: "j = JObject ms"
      by (auto split: sum.splits)
    have "known_entries elem ms"
      using GMap.prems(1) TMap ms
      by (intro encode_entries_known [of kvs sc elem ms]) (use ih [of _ _ elem] in auto)
    then show ?thesis using j TMap by simp
  qed (use GMap.prems in auto)
next
  case (GStruct vs)
  have ih: "\<And>t x j. x \<in> set vs \<Longrightarrow> wf_ty t \<Longrightarrow> encode sc t x = Inr j \<Longrightarrow> known t j"
    using GStruct.IH by blast
  show ?case
  proof (cases t)
    case (TStruct fs)
    with GStruct.prems obtain ms where ms: "encode_fields sc fs vs = Inr ms" and j: "j = JObject ms"
      by (auto split: sum.splits)
    have "known_members ([] @ fs) ms"
      using GStruct.prems(1) TStruct ms
      by (intro encode_fields_known [of vs sc "[]" fs ms]) (use ih in auto)
    then show ?thesis
      using j TStruct by simp
  qed (use GStruct.prems in auto)
qed

lemma decode_members_append:
  "decode_members sc fs (ms @ ms') vs =
     (case decode_members sc fs ms vs of Inl e \<Rightarrow> Inl e | Inr vs' \<Rightarrow> decode_members sc fs ms' vs')"
proof (induction ms arbitrary: vs)
  case Nil
  then show ?case by simp
next
  case (Cons m ms)
  obtain k j where m: "m = (k, j)" by (cases m)
  show ?case
    using Cons.IH m by (cases "find_field fs k") (simp_all split: sum.splits)
qed

text \<open>
  One member more, under a key that selects no field of the struct, changes nothing,
  wherever in the object it stands and whatever its value.
\<close>

lemma unknown_member_skipped:
  assumes "find_field fs k = None"
  shows "decode sc (TStruct fs) (JObject (ms @ (k, j) # ms')) cur
       = decode sc (TStruct fs) (JObject (ms @ ms')) cur"
  using assms by (simp add: decode_members_append split: sum.splits)

text \<open>
  Claim C5, as amended.  For every valid Request (strings in valid UTF-8, finite floats,
  in the \<open>interface{}\<close> slots only values of the kinds \<open>Unmarshal\<close> itself produces,
  maps taken as maps and slices as their elements), \<open>Marshal\<close> succeeds and
  \<open>UnmarshalRequest\<close> of what it wrote returns that Request.  Members of a message that select no field are not kept, at the
  top level and in every nested object that is decoded into a struct: the message
  without them (\<open>strip\<close>, which removes these members and nothing else) parses to the same
  result, error or Request, as the message with them, and whatever message
  \<open>UnmarshalRequest\<close> accepts, serialising the result gives an object with the two keys
  \<open>config\<close> and \<open>experiment\<close> and no other, in which every object written from a struct has
  only members named after its fields.  What an \<open>interface{}\<close> slot or a map holds, keys
  included, is part of the Request and is covered by the first statement.
\<close>

theorem Request_roundtrip:
  assumes "strconv_ok sc" and "valid sc Request_ty R"
  shows "(\<exists>data. Marshal sc R = Inr data \<and> UnmarshalRequest sc data = Inr R)
    \<and> (\<forall>data. UnmarshalRequest sc (strip Request_ty data) = UnmarshalRequest sc data
              \<and> known Request_ty (strip Request_ty data)
              \<and> (known Request_ty data \<longrightarrow> strip Request_ty data = data))
    \<and> (\<forall>data r data'. UnmarshalRequest sc data = Inr r \<and> Marshal sc r = Inr data'
          \<longrightarrow> object_keys data' = [''config'', ''experiment''] \<and> known Request_ty data')"
proof -
  from assms(2) obtain data where m: "Marshal sc R = Inr data"
    using encode_total [of sc Request_ty R] by (auto simp: Marshal_def)
  then have "UnmarshalRequest sc data = Inr R"
    using roundtrip [OF assms(1) wf_Request_ty assms(2)] by (simp add: Marshal_def UnmarshalRequest_def)
  with m have first: "\<exists>data. Marshal sc R = Inr data \<and> UnmarshalRequest sc data = Inr R"
    by blast
  have second: "UnmarshalRequest sc (strip Request_ty data) = UnmarshalRequest sc data
      \<and> known Request_ty (strip Request_ty data)
      \<and> (known Request_ty data \<longrightarrow> strip Request_ty data = data)" for data
    by (simp add: UnmarshalRequest_def decode_strip known_strip strip_known)
  have third: "object_keys data' = [''config'', ''experiment''] \<and> known Request_ty data'"
    if "UnmarshalRequest sc data = Inr r \<and> Marshal sc r = Inr data'" for data r data'
    using that reserialize_keys [of sc data r data'] encode_known [OF wf_Request_ty, of sc r data']
    by (simp add: Marshal_def)
  from first second third show ?thesis
    by blast
qed

text \<open>
  A sample Request, and a sample message with a key \<open>extra\<close> at the top and a key
  \<open>owner\<close> inside the experiment, neither of which any field is named after.
\<close>

lemma valid_sample: "valid whole_numbers Request_ty sample_request"
  by code_simp

theorem Request_roundtrip_witness:
  "(\<exists>data. Marshal whole_numbers sample_request = Inr data
          \<and> UnmarshalRequest whole_numbers data = Inr sample_request)
   \<and> UnmarshalRequest whole_numbers (strip Request_ty sample_message)
       = UnmarshalRequest whole_numbers sample_message
   \<and> strip Request_ty sample_message = JObject [(''experiment'', JObject [(''key'', JString ''exp-1'')])]
   \<and> object_keys (projr (reserialize whole_numbers sample_message)) = [''config'', ''experiment'']
   \<and> known Request_ty (projr (reserialize whole_numbers sample_message))
   \<and> strip Request_ty (projr (reserialize whole_numbers sample_message))
       = projr (reserialize whole_numbers sample_message)"
proof -
  let ?r = "projr (UnmarshalRequest whole_numbers sample_message)"
  let ?d = "projr (Marshal whole_numbers ?r)"
  have "\<not> isl (UnmarshalRequest whole_numbers sample_message)"
    by code_simp
  then have u: "UnmarshalRequest whole_numbers sample_message = Inr ?r"
    by simp
  have "\<not> isl (Marshal whole_numbers ?r)"
    by code_simp
  then have m: "Marshal whole_numbers ?r = Inr ?d"
    by simp
  have "reserialize whole_numbers sample_message = Marshal whole_numbers ?r"
    unfolding reserialize_def by (subst u) simp
  then have r: "reserialize whole_numbers sample_message = Inr ?d"
    using m by simp
  have s: "strip Request_ty sample_message = JObject [(''experiment'', JObject [(''key'', JString ''exp-1'')])]"
    by code_simp
  note main = Request_roundtrip [OF strconv_ok_whole_numbers valid_sample]
  from main have a: "\<exists>data. Marshal whole_numbers sample_request = Inr data
          \<and> UnmarshalRequest whole_numbers data = Inr sample_request"
    by blast
  from main have b: "UnmarshalRequest whole_numbers (strip Request_ty sample_message)
       = UnmarshalRequest whole_numbers sample_message"
    by blast
  from main u m have c: "object_keys ?d = [''config'', ''experiment''] \<and> known Request_ty ?d"
    by blast
  from main c have d: "strip Request_ty ?d = ?d"
    by blast
  from a b c d s r show ?thesis
    by simp
qed

text \<open>
  Claim C5 as stated fails.  A message with the key \<open>extra\<close> at the top and the key
  \<open>owner\<close> inside the experiment parses, and the message serialised from the result
  has neither: every object in it has the declared names of its struct and no other.
\<close>

theorem unknown_keys_dropped:
  "reserialize whole_numbers
     (JObject
        [(''experiment'', JObject [(''key'', JString ''exp-1''), (''owner'', JString ''ada'')]),
         (''extra'', JBool True)])
   = Inr (JObject
       [(''config'',
         JObject
          [(''cloud'', JNull),
           (''database'',
            JObject
             [(''apiKey'', JString []), (''authDomain'', JString []),
              (''databaseURL'', JString []), (''messagingSenderId'', JNumber 0),
              (''projectId'', JString []), (''storageBucket'', JString []),
              (''type'', JString []), (''use_email_auth'', JBool False)]),
           (''saveWorkspaceFrequency'', JString []),
           (''experimentLifetime'', JString []), (''verbose'', JString []),
           (''env'', JNull), (''pip'', JNull),
           (''runner'', JObject [(''slack_destination'', JString [])])]),
        (''experiment'',
         JObject
          [(''args'', JNull), (''artifacts'', JNull),
           (''filename'', JString []), (''git'', JNull),
           (''info'', JObject []), (''key'', JString ''exp-1''),
           (''metric'', JNull), (''project'', JNull),
           (''pythonenv'', JNull), (''pythonver'', JNumber 0),
           (''resources_needed'',
            JObject
             [(''cpus'', JNumber 0), (''gpus'', JNumber 0),
              (''hdd'', JString []), (''ram'', JString []),
              (''gpuMem'', JString [])]),
           (''status'', JString []), (''time_added'', JNumber 0),
           (''max_duration'', JString []), (''time_finished'', JNull),
           (''time_last_checkpoint'', JNull), (''time_started'', JNull)])])"
  by code_simp

text \<open>
  Members that select the same field are all decoded, one into the result of the other:
  the message below, with \<open>config\<close> given twice under names that differ in case and a
  \<open>null\<close> element that leaves the string at its place, is accepted and serialises like
  the message with one \<open>config\<close>.
\<close>

lemma repeated_members_merge:
  "reserialize whole_numbers
     (JObject
        [(''config'', JObject [(''verbose'', JString ''1''), (''pip'', JArray [JString ''a'', JString ''b''])]),
         (''Config'', JObject [(''pip'', JArray [JNull])]),
         (''extra'', JBool True)])
   = reserialize whole_numbers
       (JObject [(''config'', JObject [(''verbose'', JString ''1''), (''pip'', JArray [JString ''a''])])])
   \<and> \<not> isl (reserialize whole_numbers
       (JObject [(''config'', JObject [(''verbose'', JString ''1''), (''pip'', JArray [JString ''a''])])]))"
  by code_simp

text \<open>
  A slice that had two elements and was cut to one gets the second back when two
  \<open>null\<close> elements are decoded into it.
\<close>

lemma stale_elements_return:
  "decode whole_numbers (TSlice TString) (JArray [JNull, JNull]) (GSlice [GString ''c''] [GString ''b''])
   = Inr (GSlice [GString ''c'', GString ''b''] [])"
  by code_simp

text \<open>
  A key under the \<open>interface{}\<close> field \<open>cloud\<close> is kept; \<open>region\<close>, which no field of
  \<open>Config\<close> is named after, is not.
\<close>

lemma interface_keys_kept:
  "member_of (member_of (projr (reserialize whole_numbers
       (JObject [(''config'', JObject [(''cloud'', JObject [(''zone'', JString ''eu'')]),
                                       (''region'', JString ''west'')])]))) ''config'') ''cloud''
   = JObject [(''zone'', JString ''eu'')]
   \<and> object_keys (member_of (projr (reserialize whole_numbers
       (JObject [(''config'', JObject [(''cloud'', JObject [(''zone'', JString ''eu'')]),
                                       (''region'', JString ''west'')])]))) ''config'')
     = [''cloud'', ''database'', ''saveWorkspaceFrequency'', ''experimentLifetime'', ''verbose'',
        ''env'', ''pip'', ''runner'']"
  by code_simp

end
